theory Spec2Isabelle
  imports
    Main
    "HOL-Library.Char_ord"
    "HOL-Library.List_Lexorder"
    "HOL-Library.Product_Lexorder"
    "HOL-Library.Multiset"
begin

section \<open>The collaboration file and permission engine of MSS (mslib/mscolab/file_manager.py)\<close>

text \<open>
  \<open>FileManager\<close> works on three things: the tables of the relational store
  (Operation, Permission, Change), the data directory with one sub-directory per
  operation holding \<open>main.ftml\<close>, and the git repository rooted in that
  sub-directory. The model passes all three around as one explicit state.
  A Python exception that leaves a method is the \<open>Inl\<close> of a sum; the value
  \<open>False\<close> that a method returns where it would otherwise return data is \<open>PyFalse\<close>.
\<close>

subsection \<open>Data model\<close>

datatype error =
    AttributeError | UnboundLocalError | IntegrityError
  | ResourceNotFound | DirectoryExists | NoSuchPathError | GitCommandError

datatype 'a or_false = PyFalse | PyVal 'a

text \<open>
  Rows as the methods read and write them. Ids are Python integers, an access level is
  the string the code compares against (\<open>"creator"\<close>, \<open>"admin"\<close>, ...). Time stamps
  (\<open>last_used\<close>, \<open>created_at\<close>), descriptions and comments are never inspected by the
  methods modelled here and are left out; a table is the list of its rows in insertion
  order, and \<open>.first()\<close> is the first row of that list that passes the filter.
\<close>

record operation =
  o_id :: int
  o_path :: string
  o_category :: string
  o_active :: bool

record permission =
  u_id :: int
  op_id :: int
  access_level :: string

record change =
  ch_id :: int
  ch_op_id :: int
  ch_u_id :: int
  ch_commit_hash :: nat
  ch_version_name :: "string option"

text \<open>
  The directory of one operation: the text of \<open>main.ftml\<close> and the history of the git
  repository, oldest commit first, each commit with the text of \<open>main.ftml\<close> it
  recorded. A commit's \<open>hexsha\<close> is modelled by its position in that history, which
  identifies the commit inside its repository as the hash does.
\<close>

record op_dir =
  main_ftml :: string
  commits :: "string list"

record state =
  operations :: "operation list"
  permissions :: "permission list"
  changes :: "change list"
  data_dir :: "string \<rightharpoonup> op_dir"

text \<open>The two settings of \<open>mscolab_settings\<close> that the methods read (conftest.py).\<close>

definition GROUP_POSTFIX :: string where
  "GROUP_POSTFIX = ''Group''"

definition STUB_CODE :: string where
  "STUB_CODE = concat
    [''<?xml version=\"1.0\" encoding=\"utf-8\"?>'', [CHR 0x0A],
     ''<FlightTrack version=\"1.7.6\">'', [CHR 0x0A],
     ''  <ListOfWaypoints>'', [CHR 0x0A],
     ''    <Waypoint flightlevel=\"250\" lat=\"67.821\" location=\"Kiruna\" lon=\"20.336\">'', [CHR 0x0A],
     ''      <Comments></Comments>'', [CHR 0x0A],
     ''    </Waypoint>'', [CHR 0x0A],
     ''    <Waypoint flightlevel=\"250\" lat=\"78.928\" location=\"Ny-Alesund\" lon=\"11.986\">'', [CHR 0x0A],
     ''      <Comments></Comments>'', [CHR 0x0A],
     ''    </Waypoint>'', [CHR 0x0A],
     ''  </ListOfWaypoints>'', [CHR 0x0A],
     ''</FlightTrack>'', [CHR 0x0A]]"

subsection \<open>Queries\<close>

definition operation_by_id :: "state \<Rightarrow> int \<Rightarrow> operation option" where
  \<comment> \<open>\<open>Operation.query.filter_by(id=op_id).first()\<close>\<close>
  "operation_by_id s op = find (\<lambda>r. o_id r = op) (operations s)"

definition operation_by_path :: "state \<Rightarrow> string \<Rightarrow> operation option" where
  \<comment> \<open>\<open>Operation.query.filter_by(path=path).first()\<close>\<close>
  "operation_by_path s p = find (\<lambda>r. o_path r = p) (operations s)"

definition permission_of :: "permission list \<Rightarrow> int \<Rightarrow> int \<Rightarrow> permission option" where
  \<comment> \<open>\<open>Permission.query.filter_by(u_id=u_id, op_id=op_id).first()\<close>\<close>
  "permission_of ps u op = find (\<lambda>p. u_id p = u \<and> op_id p = op) ps"

definition change_by_id :: "state \<Rightarrow> int \<Rightarrow> change option" where
  \<comment> \<open>\<open>Change.query.filter_by(id=ch_id).first()\<close>\<close>
  "change_by_id s ch = find (\<lambda>c. ch_id c = ch) (changes s)"

definition is_member :: "state \<Rightarrow> int \<Rightarrow> int \<Rightarrow> bool" where
  "is_member s u op =
     (case permission_of (permissions s) u op of None \<Rightarrow> False | Some perm \<Rightarrow> True)"

definition is_admin :: "state \<Rightarrow> int \<Rightarrow> int \<Rightarrow> bool" where
  "is_admin s u op =
     (case permission_of (permissions s) u op of
        None \<Rightarrow> False
      | Some perm \<Rightarrow> if access_level perm \<noteq> ''admin'' then False else True)"

definition is_creator :: "state \<Rightarrow> int \<Rightarrow> int \<Rightarrow> bool" where
  "is_creator s u op =
     (case permission_of (permissions s) u op of
        None \<Rightarrow> False
      | Some perm \<Rightarrow> if access_level perm \<noteq> ''creator'' then False else True)"

definition is_collaborator :: "state \<Rightarrow> int \<Rightarrow> int \<Rightarrow> bool" where
  "is_collaborator s u op =
     (case permission_of (permissions s) u op of
        None \<Rightarrow> False
      | Some perm \<Rightarrow> if access_level perm \<noteq> ''collaborator'' then False else True)"

definition is_viewer :: "state \<Rightarrow> int \<Rightarrow> int \<Rightarrow> bool" where
  "is_viewer s u op =
     (case permission_of (permissions s) u op of
        None \<Rightarrow> False
      | Some perm \<Rightarrow> if access_level perm \<noteq> ''viewer'' then False else True)"

subsection \<open>Strings\<close>

text \<open>
  Python's \<open>str\<close> methods that the code calls. A \<open>string\<close> here is a list of
  8-bit characters, so the model covers texts of code points below 256; the line
  boundaries of \<open>str.splitlines\<close> in that range are LF, VT, FF, CR, CR LF, FS, GS, RS
  and NEL.
\<close>

definition endswith :: "string \<Rightarrow> string \<Rightarrow> bool" where
  "endswith t suffix =
     (length suffix \<le> length t \<and> drop (length t - length suffix) t = suffix)"

fun split_head :: "string \<Rightarrow> string \<Rightarrow> string" where
  \<comment> \<open>\<open>t.split(sep)[0]\<close> for a non-empty \<open>sep\<close>: the text before its first occurrence\<close>
  "split_head sep [] = []"
| "split_head sep (c # cs) =
     (if take (length sep) (c # cs) = sep then [] else c # split_head sep cs)"

definition is_line_boundary :: "char \<Rightarrow> bool" where
  "is_line_boundary c =
     (c \<in> set [CHR 0x0A, CHR 0x0B, CHR 0x0C, CHR 0x0D, CHR 0x1C, CHR 0x1D, CHR 0x1E, CHR 0x85])"

fun splitlines_from :: "string \<Rightarrow> string \<Rightarrow> string list" where
  \<comment> \<open>first argument: the characters of the line being read, last one first\<close>
  "splitlines_from line [] = (if line = [] then [] else [rev line])"
| "splitlines_from line [c] =
     (if is_line_boundary c then [rev line] else [rev (c # line)])"
| "splitlines_from line (c # d # cs) =
     (if c = CHR 0x0D \<and> d = CHR 0x0A then rev line # splitlines_from [] cs
      else if is_line_boundary c then rev line # splitlines_from [] (d # cs)
      else splitlines_from (c # line) (d # cs))"

definition splitlines :: "string \<Rightarrow> string list" where
  "splitlines t = splitlines_from [] t"

definition join_lines :: "string list \<Rightarrow> string" where
  \<comment> \<open>\<open>'\n'.join(lines)\<close>\<close>
  "join_lines ls = (case ls of [] \<Rightarrow> [] | l # rest \<Rightarrow> l @ concat (map (\<lambda>x. CHR 0x0A # x) rest))"

text \<open>
  \<open>difflib.unified_diff(a, b, lineterm='')\<close> yields nothing when the two sequences of
  lines are equal; otherwise its output starts with the two header lines
  \<open>"--- "\<close> and \<open>"+++ "\<close> (no file names are passed), followed by the hunks.
  \<open>save_file\<close> only tests the joined output for emptiness, so the model keeps the
  header lines and leaves the hunks out.
\<close>

definition unified_diff :: "string list \<Rightarrow> string list \<Rightarrow> string list" where
  "unified_diff a b = (if a = b then [] else [''--- '', ''+++ ''])"

subsection \<open>The version-control repository\<close>

text \<open>
  \<open>repo.git.show(f'{commit_hash}:main.ftml')\<close> runs \<open>git show\<close> and returns its
  standard output. GitPython's \<open>Git.execute\<close> removes one final line feed from the
  standard output it returns (\<open>strip_newline_in_stdout\<close>, on unless switched off;
  the code does not switch it off). An unknown hash makes the command fail
  (\<open>GitCommandError\<close>), here \<open>None\<close>.
\<close>

definition strip_newline_in_stdout :: "string \<Rightarrow> string" where
  "strip_newline_in_stdout out =
     (if out \<noteq> [] \<and> last out = CHR 0x0A then butlast out else out)"

definition git_show :: "string list \<Rightarrow> nat \<Rightarrow> string option" where
  "git_show history hexsha =
     (if hexsha < length history then Some (strip_newline_in_stdout (history ! hexsha))
      else None)"

definition next_id :: "int list \<Rightarrow> int" where
  \<comment> \<open>the id an autoincrement primary key gives the next row: one above the largest\<close>
  "next_id ids = fold max ids 0 + 1"

subsection \<open>Saving, reading, undoing\<close>

definition save_file :: "state \<Rightarrow> int \<Rightarrow> string \<Rightarrow> int \<Rightarrow> error + (bool \<times> state)" where
  \<comment> \<open>No permission of \<open>user\<close> is looked up; \<open>user\<close> only signs the Change row. The new
      text is written before the diff is tested.\<close>
  "save_file s op content user =
     (case operation_by_id s op of
        None \<Rightarrow> Inr (False, s)
      | Some operation \<Rightarrow>
          (case data_dir s (o_path operation) of
             None \<Rightarrow> Inl ResourceNotFound
           | Some d \<Rightarrow>
               let old_data = main_ftml d;
                   diff_content = join_lines (unified_diff (splitlines old_data) (splitlines content));
                   written = d\<lparr>main_ftml := content\<rparr>
               in if diff_content \<noteq> ''''
                  then
                    let cm = length (commits written);
                        committed = written\<lparr>commits := commits written @ [content]\<rparr>;
                        ch = \<lparr>ch_id = next_id (map ch_id (changes s)), ch_op_id = op,
                              ch_u_id = user, ch_commit_hash = cm, ch_version_name = None\<rparr>
                    in Inr (True, s\<lparr>changes := changes s @ [ch],
                                    data_dir := (data_dir s)(o_path operation \<mapsto> committed)\<rparr>)
                  else Inr (False, s\<lparr>data_dir := (data_dir s)(o_path operation \<mapsto> written)\<rparr>)))"

definition get_file :: "state \<Rightarrow> int \<Rightarrow> int \<Rightarrow> error + string or_false" where
  "get_file s op user =
     (case permission_of (permissions s) user op of
        None \<Rightarrow> Inr PyFalse
      | Some perm \<Rightarrow>
          (case operation_by_id s op of
             None \<Rightarrow> Inr PyFalse
           | Some operation \<Rightarrow>
               (case data_dir s (o_path operation) of
                  None \<Rightarrow> Inl ResourceNotFound
                | Some d \<Rightarrow> Inr (PyVal (main_ftml d)))))"

definition get_change_content :: "state \<Rightarrow> int \<Rightarrow> int \<Rightarrow> error + string or_false" where
  \<comment> \<open>Line 394 reads \<open>ch.op_id\<close> before line 399 tests the row, so an unknown id raises.\<close>
  "get_change_content s ch user =
     (case change_by_id s ch of
        None \<Rightarrow> Inl AttributeError
      | Some c \<Rightarrow>
          (case permission_of (permissions s) user (ch_op_id c) of
             None \<Rightarrow> Inr PyFalse
           | Some perm \<Rightarrow>
               (case operation_by_id s (ch_op_id c) of
                  None \<Rightarrow> Inl AttributeError
                | Some operation \<Rightarrow>
                    (case data_dir s (o_path operation) of
                       None \<Rightarrow> Inl NoSuchPathError
                     | Some d \<Rightarrow>
                         (case git_show (commits d) (ch_commit_hash c) of
                            None \<Rightarrow> Inl GitCommandError
                          | Some change_content \<Rightarrow> Inr (PyVal change_content))))))"

definition undo_changes :: "state \<Rightarrow> int \<Rightarrow> int \<Rightarrow> error + (bool \<times> state)" where
  \<comment> \<open>Line 426 reads \<open>ch.op_id\<close> before line 429 tests \<open>ch is None\<close>, so an unknown id
      raises. \<open>git.Repo(...)\<close> is called before the \<open>try\<close>; a failing \<open>git show\<close> is
      inside it and becomes \<open>False\<close>.\<close>
  "undo_changes s ch user =
     (case change_by_id s ch of
        None \<Rightarrow> Inl AttributeError
      | Some c \<Rightarrow>
          if \<not> is_admin s user (ch_op_id c) \<and> \<not> is_creator s user (ch_op_id c)
             \<and> \<not> is_collaborator s user (ch_op_id c)
          then Inr (False, s)
          else
            (case operation_by_id s (ch_op_id c) of
               None \<Rightarrow> Inr (False, s)
             | Some operation \<Rightarrow>
                 (case data_dir s (o_path operation) of
                    None \<Rightarrow> Inl NoSuchPathError
                  | Some d \<Rightarrow>
                      (case git_show (commits d) (ch_commit_hash c) of
                         None \<Rightarrow> Inr (False, s)
                       | Some file_content \<Rightarrow>
                           let cm = length (commits d);
                               restored = d\<lparr>main_ftml := file_content,
                                            commits := commits d @ [file_content]\<rparr>;
                               new_change =
                                 \<lparr>ch_id = next_id (map ch_id (changes s)), ch_op_id = ch_op_id c,
                                  ch_u_id = user, ch_commit_hash = cm, ch_version_name = None\<rparr>
                           in Inr (True, s\<lparr>changes := changes s @ [new_change],
                                           data_dir := (data_dir s)(o_path operation \<mapsto> restored)\<rparr>)))))"

subsection \<open>Named versions\<close>

definition set_version_name ::
  "state \<Rightarrow> int \<Rightarrow> int \<Rightarrow> int \<Rightarrow> string option \<Rightarrow> bool \<times> state" where
  \<comment> \<open>The UPDATE filters on \<open>Change.id\<close> alone and reports nothing about the rows it matched.\<close>
  "set_version_name s ch op u version_name =
     (if \<not> is_admin s u op \<and> \<not> is_creator s u op \<and> \<not> is_collaborator s u op
      then (False, s)
      else (True,
            s\<lparr>changes :=
                map (\<lambda>c. if ch_id c = ch then c\<lparr>ch_version_name := version_name\<rparr> else c)
                    (changes s)\<rparr>))"

subsection \<open>Bulk permission changes\<close>

fun insert_permissions :: "permission list \<Rightarrow> permission list \<Rightarrow> permission list option" where
  \<comment> \<open>Modelled from the spec: the table declaration (mslib/mscolab/models.py) is not among
      the sources. The spec's data model allows at most one Permission row per
      (user, operation) pair and names the duplicate permission insert as the integrity
      conflict: the INSERT of a row whose pair is taken raises \<open>IntegrityError\<close>, here
      \<open>None\<close>.\<close>
  "insert_permissions table [] = Some table"
| "insert_permissions table (p # new_rows) =
     (if permission_of table (u_id p) (op_id p) \<noteq> None then None
      else insert_permissions (table @ [p]) new_rows)"

definition update_level :: "int \<Rightarrow> int list \<Rightarrow> string \<Rightarrow> permission list \<Rightarrow> permission list" where
  \<comment> \<open>\<open>Permission.query.filter(op_id == op).filter(u_id.in_(u_ids)).update(...)\<close>\<close>
  "update_level op u_ids new_access_level table =
     map (\<lambda>p. if op_id p = op \<and> u_id p \<in> set u_ids
               then p\<lparr>access_level := new_access_level\<rparr> else p) table"

definition delete_rows :: "int \<Rightarrow> int list \<Rightarrow> permission list \<Rightarrow> permission list" where
  \<comment> \<open>\<open>Permission.query.filter(op_id == op).filter(u_id.in_(u_ids)).delete(...)\<close>\<close>
  "delete_rows op u_ids table = filter (\<lambda>p. \<not> (op_id p = op \<and> u_id p \<in> set u_ids)) table"

definition ops_of_category :: "state \<Rightarrow> string \<Rightarrow> operation list" where
  \<comment> \<open>\<open>Operation.query.filter_by(category=category)\<close>\<close>
  "ops_of_category s category = filter (\<lambda>r. o_category r = category) (operations s)"

definition add_bulk_permission ::
  "state \<Rightarrow> int \<Rightarrow> int \<Rightarrow> int list \<Rightarrow> string \<Rightarrow> error + (bool \<times> state)" where
  \<comment> \<open>The rows for \<open>op\<close> are added to the session after the first loop and are written
      when the next query flushes it (line 492), outside the \<open>try\<close>. The rows for the
      operations of the category are built from \<open>u_id\<close>, the variable the first loop
      left behind: its last value, or no value when \<open>new_u_ids\<close> is empty. They are
      written by the commit, inside the \<open>try\<close>; a rollback undoes the whole call.\<close>
  "add_bulk_permission s op user new_u_ids level =
     (if \<not> is_admin s user op \<and> \<not> is_creator s user op then Inr (False, s)
      else
        let new_permissions =
              map (\<lambda>u. \<lparr>u_id = u, op_id = op, access_level = level\<rparr>)
                  (filter (\<lambda>u. permission_of (permissions s) u op = None) new_u_ids)
        in case insert_permissions (permissions s) new_permissions of
             None \<Rightarrow> Inl IntegrityError
           | Some flushed \<Rightarrow>
               (case operation_by_id s op of
                  None \<Rightarrow> Inl AttributeError
                | Some operation \<Rightarrow>
                    if endswith (o_path operation) GROUP_POSTFIX
                    then
                      let category = split_head GROUP_POSTFIX (o_path operation);
                          targets = filter (\<lambda>ops. \<not> endswith (o_path ops) GROUP_POSTFIX)
                                      (ops_of_category s category)
                      in if targets \<noteq> [] \<and> new_u_ids = [] then Inl UnboundLocalError
                         else
                           (case insert_permissions flushed
                                   (map (\<lambda>ops. \<lparr>u_id = last new_u_ids, op_id = o_id ops,
                                                 access_level = level\<rparr>) targets) of
                              None \<Rightarrow> Inr (False, s)
                            | Some committed \<Rightarrow> Inr (True, s\<lparr>permissions := committed\<rparr>))
                    else Inr (True, s\<lparr>permissions := flushed\<rparr>)))"

definition modify_bulk_permission ::
  "state \<Rightarrow> int \<Rightarrow> int \<Rightarrow> int list \<Rightarrow> string \<Rightarrow> error + (bool \<times> state)" where
  \<comment> \<open>The loop over the category updates every operation of it, whatever its path.\<close>
  "modify_bulk_permission s op user u_ids new_access_level =
     (if \<not> is_admin s user op \<and> \<not> is_creator s user op then Inr (False, s)
      else
        let updated = update_level op u_ids new_access_level (permissions s)
        in case operation_by_id s op of
             None \<Rightarrow> Inl AttributeError
           | Some operation \<Rightarrow>
               if endswith (o_path operation) GROUP_POSTFIX
               then
                 let category = split_head GROUP_POSTFIX (o_path operation)
                 in Inr (True, s\<lparr>permissions :=
                           fold (\<lambda>ops. update_level (o_id ops) u_ids new_access_level)
                                (ops_of_category s category) updated\<rparr>)
               else Inr (True, s\<lparr>permissions := updated\<rparr>))"

definition delete_refused :: "state \<Rightarrow> int \<Rightarrow> int \<Rightarrow> int list \<Rightarrow> bool" where
  \<comment> \<open>the checks of lines 540 to 554, true where one of them returns \<open>False\<close>\<close>
  "delete_refused s op user u_ids =
     (if \<not> is_member s user op then True
      else if \<not> is_admin s user op \<and> \<not> is_creator s user op
      then (if length u_ids \<noteq> 1 \<or> user \<notin> set u_ids then True else False)
      else if \<exists>u \<in> set u_ids. \<not> is_member s u op then True
      else if is_creator s user op then (if user \<in> set u_ids then True else False)
      else False)"

definition delete_bulk_permission ::
  "state \<Rightarrow> int \<Rightarrow> int \<Rightarrow> int list \<Rightarrow> error + (bool \<times> state)" where
  \<comment> \<open>The loop over the category deletes in every operation of it, whatever its path.\<close>
  "delete_bulk_permission s op user u_ids =
     (if delete_refused s op user u_ids then Inr (False, s)
      else
        let deleted = delete_rows op u_ids (permissions s)
        in case operation_by_id s op of
             None \<Rightarrow> Inl AttributeError
           | Some operation \<Rightarrow>
               if endswith (o_path operation) GROUP_POSTFIX
               then
                 let category = split_head GROUP_POSTFIX (o_path operation)
                 in Inr (True, s\<lparr>permissions :=
                           fold (\<lambda>ops. delete_rows (o_id ops) u_ids)
                                (ops_of_category s category) deleted\<rparr>)
               else Inr (True, s\<lparr>permissions := deleted\<rparr>))"

subsection \<open>Importing the permissions of another operation\<close>

record notification =
  add_users :: "int set"
  modify_users :: "int set"
  delete_users :: "int set"

type_synonym import_result = "bool \<times> notification option \<times> string"

definition downgrade :: "string \<Rightarrow> string" where
  \<comment> \<open>creator stays with the one who created the operation; an imported creator is admin\<close>
  "downgrade level = (if level = ''creator'' then ''admin'' else level)"

definition existing_perms_of :: "permission list \<Rightarrow> int \<Rightarrow> int \<Rightarrow> permission list" where
  \<comment> \<open>lines 584 to 587: the rows of the target, but the requester's and the creator's\<close>
  "existing_perms_of table current_op_id u =
     filter (\<lambda>p. op_id p = current_op_id \<and> u_id p \<noteq> u \<and> access_level p \<noteq> ''creator'') table"

definition import_perms_of :: "permission list \<Rightarrow> int \<Rightarrow> int \<Rightarrow> int \<Rightarrow> permission list" where
  \<comment> \<open>lines 591 to 594: the rows of the source, but the requester's and those of the
      user who created the target\<close>
  "import_perms_of table import_op_id u creator_id =
     filter (\<lambda>p. op_id p = import_op_id \<and> u_id p \<noteq> u \<and> u_id p \<noteq> creator_id) table"

definition is_perm_of :: "permission list \<Rightarrow> (int \<times> string) list" where
  "is_perm_of existing_perms = map (\<lambda>p. (u_id p, access_level p)) existing_perms"

definition new_perm_of :: "permission list \<Rightarrow> (int \<times> string) list" where
  "new_perm_of import_perms = map (\<lambda>p. (u_id p, downgrade (access_level p))) import_perms"

definition delete_missing ::
  "int \<Rightarrow> int \<Rightarrow> (int \<times> string) list \<Rightarrow> permission list \<Rightarrow> permission list" where
  \<comment> \<open>lines 613 to 618: every row of \<open>existing_perms\<close> whose pair is not in \<open>new_perm\<close> goes\<close>
  "delete_missing current_op_id u new_perm table =
     filter (\<lambda>p. \<not> (op_id p = current_op_id \<and> u_id p \<noteq> u \<and> access_level p \<noteq> ''creator''
                     \<and> (u_id p, access_level p) \<notin> set new_perm)) table"

definition add_imported :: "int \<Rightarrow> (int \<times> string) list \<Rightarrow> (int \<times> string) \<Rightarrow>
    permission list \<Rightarrow> permission list" where
  \<comment> \<open>one round of the loop of lines 622 to 626; the query sees the rows added before\<close>
  "add_imported current_op_id is_perm pair table =
     (if pair \<notin> set is_perm \<and> permission_of table (fst pair) current_op_id = None
      then table @ [\<lparr>u_id = fst pair, op_id = current_op_id, access_level = snd pair\<rparr>]
      else table)"

definition notification_of ::
  "(int \<times> string) list \<Rightarrow> (int \<times> string) list \<Rightarrow> notification" where
  \<comment> \<open>lines 629 to 637; \<open>dict(pairs)\<close> keeps the last pair of a key\<close>
  "notification_of is_perm new_perm =
     (let existing_users = set (map fst is_perm);
          import_users = set (map fst new_perm)
      in \<lparr>add_users = import_users - existing_users,
          modify_users =
            Set.filter (\<lambda>m. map_of (rev new_perm) m \<noteq> map_of (rev is_perm) m)
                       (import_users \<inter> existing_users),
          delete_users = existing_users - import_users\<rparr>)"

definition import_permissions ::
  "state \<Rightarrow> int \<Rightarrow> int \<Rightarrow> int \<Rightarrow> error + (import_result \<times> state)" where
  \<comment> \<open>A row is only added where the query has found none for its pair, so no insert of
      this method can meet the integrity conflict and the commit goes through. The lists
      of the notification come from Python sets and are kept as sets.\<close>
  "import_permissions s import_op_id current_op_id u =
     (if \<not> is_creator s u current_op_id \<and> \<not> is_admin s u current_op_id
      then Inr ((False, None, ''Not the creator or admin of this operation''), s)
      else
        case permission_of (permissions s) u import_op_id of
          None \<Rightarrow> Inr ((False, None, ''Not a member of this operation''), s)
        | Some perm \<Rightarrow>
            let existing_perms = existing_perms_of (permissions s) current_op_id u
            in case find (\<lambda>p. op_id p = current_op_id \<and> access_level p = ''creator'')
                         (permissions s) of
                 None \<Rightarrow> Inl AttributeError
               | Some current_operation_creator \<Rightarrow>
                   let import_perms = import_perms_of (permissions s) import_op_id u
                                        (u_id current_operation_creator);
                       is_perm = is_perm_of existing_perms;
                       new_perm = new_perm_of import_perms
                   in if sort new_perm = sort is_perm
                      then Inr ((False, None, ''Permissions are already given''), s)
                      else
                        let deleted = delete_missing current_op_id u new_perm (permissions s);
                            added = fold (add_imported current_op_id is_perm) new_perm deleted
                        in Inr ((True, Some (notification_of is_perm new_perm), ''success''),
                                s\<lparr>permissions := added\<rparr>))"

subsection \<open>Creating an operation\<close>

definition makedir_fails :: "state \<Rightarrow> string \<Rightarrow> bool" where
  \<comment> \<open>\<open>data.makedir(path)\<close> raises when the directory is there already; the empty path and
      \<open>"."\<close> name the data directory itself, \<open>".."\<close> is refused\<close>
  "makedir_fails s p = (p \<in> dom (data_dir s) \<or> p = '''' \<or> p = ''.'' \<or> p = ''..'')"

definition import_from_group ::
  "state \<Rightarrow> string \<Rightarrow> string \<Rightarrow> int \<Rightarrow> int \<Rightarrow> error + state" where
  \<comment> \<open>Lines 66 to 69: the permissions of the category's Group operation, if there is one,
      are imported into the new operation. The result of \<open>import_permissions\<close> is
      dropped, its effect on the tables is kept.\<close>
  "import_from_group s path category operation_id user =
     (if \<not> endswith path GROUP_POSTFIX
      then
        case operation_by_path s (category @ GROUP_POSTFIX) of
          None \<Rightarrow> Inr s
        | Some import_op \<Rightarrow>
            map_sum id snd (import_permissions s (o_id import_op) operation_id user)
      else Inr s)"

definition create_operation ::
  "state \<Rightarrow> string \<Rightarrow> int \<Rightarrow> string option \<Rightarrow> string \<Rightarrow> bool \<Rightarrow> error + (bool \<times> state)" where
  \<comment> \<open>The file object is never closed by the method; the state returned is the one after
      the call, when the text is in \<open>main.ftml\<close>. Revision 0 is recorded with that text;
      no Change row ever points at it.\<close>
  "create_operation s path user content category active =
     (if CHR ''/'' \<in> set path \<or> CHR 0x5C \<in> set path \<or> CHR '' '' \<in> set path
      then Inr (False, s)
      else
        case operation_by_path s path of
          Some proj_available \<Rightarrow> Inr (False, s)
        | None \<Rightarrow>
            let operation_id = next_id (map o_id (operations s));
                operation = \<lparr>o_id = operation_id, o_path = path, o_category = category,
                             o_active = active\<rparr>;
                perm = \<lparr>u_id = user, op_id = operation_id, access_level = ''creator''\<rparr>
            in case insert_permissions (permissions s) [perm] of
                 None \<Rightarrow> Inl IntegrityError
               | Some table \<Rightarrow>
                   (case import_from_group
                           (s\<lparr>operations := operations s @ [operation], permissions := table\<rparr>)
                           path category operation_id user of
                      Inl e \<Rightarrow> Inl e
                    | Inr s2 \<Rightarrow>
                        if makedir_fails s2 path then Inl DirectoryExists
                        else
                          let initial = (case content of None \<Rightarrow> STUB_CODE | Some c \<Rightarrow> c)
                          in Inr (True, s2\<lparr>data_dir :=
                               (data_dir s2)(path \<mapsto> \<lparr>main_ftml = initial, commits = [initial]\<rparr>)\<rparr>)))"

subsection \<open>Invariants of the Permission table\<close>

text \<open>
  The two invariants the data model puts on the Permission table: at most one row per
  pair of user and operation, and (for one operation) at most one row of level
  \<open>creator\<close>. The first is what the integrity conflict of \<open>insert_permissions\<close>
  guards, and every method keeps it. The second is kept by no test of the methods:
  \<open>add_bulk_permission\<close> and \<open>modify_bulk_permission\<close> take any level, \<open>creator\<close>
  too.
\<close>

definition one_row_per_pair :: "permission list \<Rightarrow> bool" where
  "one_row_per_pair table = distinct (map (\<lambda>p. (u_id p, op_id p)) table)"

definition single_creator :: "permission list \<Rightarrow> int \<Rightarrow> bool" where
  "single_creator table op =
     (length (filter (\<lambda>p. op_id p = op \<and> access_level p = ''creator'') table) \<le> 1)"

subsection \<open>Example states\<close>

text \<open>
  An operation \<open>alpha\<close> of category \<open>tex\<close>: user 1 created it, user 2 collaborates,
  user 3 has no permission on it. Its repository holds revision 0 and the two commits
  of the Change rows 1 and 2, both saved by user 2.
\<close>

definition alpha_state :: state where
  "alpha_state =
     \<lparr>operations = [\<lparr>o_id = 1, o_path = ''alpha'', o_category = ''tex'', o_active = True\<rparr>],
      permissions = [\<lparr>u_id = 1, op_id = 1, access_level = ''creator''\<rparr>,
                     \<lparr>u_id = 2, op_id = 1, access_level = ''collaborator''\<rparr>],
      changes = [\<lparr>ch_id = 1, ch_op_id = 1, ch_u_id = 2, ch_commit_hash = 1, ch_version_name = None\<rparr>,
                 \<lparr>ch_id = 2, ch_op_id = 1, ch_u_id = 2, ch_commit_hash = 2, ch_version_name = None\<rparr>],
      data_dir = [''alpha'' \<mapsto> \<lparr>main_ftml = ''b'',
                                  commits = [''x'', [CHR ''a'', CHR 0x0A], ''b'']\<rparr>]\<rparr>"

text \<open>
  A category \<open>tex\<close> with its template \<open>texGroup\<close> (operation 1), an ordinary operation
  \<open>alpha\<close> (operation 2) and a second operation whose path ends with the postfix,
  \<open>labGroup\<close> (operation 3). User 1 created all three; user 7 is a viewer of the two
  operations with the postfix.
\<close>

definition group_state :: state where
  "group_state =
     \<lparr>operations = [\<lparr>o_id = 1, o_path = ''texGroup'', o_category = ''tex'', o_active = True\<rparr>,
                    \<lparr>o_id = 2, o_path = ''alpha'', o_category = ''tex'', o_active = True\<rparr>,
                    \<lparr>o_id = 3, o_path = ''labGroup'', o_category = ''tex'', o_active = True\<rparr>],
      permissions = [\<lparr>u_id = 1, op_id = 1, access_level = ''creator''\<rparr>,
                     \<lparr>u_id = 1, op_id = 2, access_level = ''creator''\<rparr>,
                     \<lparr>u_id = 1, op_id = 3, access_level = ''creator''\<rparr>,
                     \<lparr>u_id = 7, op_id = 1, access_level = ''viewer''\<rparr>,
                     \<lparr>u_id = 7, op_id = 3, access_level = ''viewer''\<rparr>],
      changes = [],
      data_dir = [''texGroup'' \<mapsto> \<lparr>main_ftml = ''t'', commits = [''t'']\<rparr>,
                  ''alpha'' \<mapsto> \<lparr>main_ftml = ''a'', commits = [''a'']\<rparr>,
                  ''labGroup'' \<mapsto> \<lparr>main_ftml = ''l'', commits = [''l'']\<rparr>]\<rparr>"

text \<open>The states after user 1 has created \<open>beta\<close> in \<open>group_state\<close> without a text, and
  after user 3 has created \<open>beta\<close> in \<open>alpha_state\<close> with the text \<open>hello\<close>.\<close>

definition group_state_beta :: state where
  "group_state_beta =
     group_state
       \<lparr>operations := operations group_state @
          [\<lparr>o_id = 4, o_path = ''beta'', o_category = ''tex'', o_active = True\<rparr>],
        permissions := permissions group_state @
          [\<lparr>u_id = 1, op_id = 4, access_level = ''creator''\<rparr>,
           \<lparr>u_id = 7, op_id = 4, access_level = ''viewer''\<rparr>],
        data_dir := (data_dir group_state)(''beta'' \<mapsto>
          \<lparr>main_ftml = STUB_CODE, commits = [STUB_CODE]\<rparr>)\<rparr>"

definition alpha_state_beta :: state where
  "alpha_state_beta =
     alpha_state
       \<lparr>operations := operations alpha_state @
          [\<lparr>o_id = 2, o_path = ''beta'', o_category = ''lab'', o_active = True\<rparr>],
        permissions := permissions alpha_state @
          [\<lparr>u_id = 3, op_id = 2, access_level = ''creator''\<rparr>],
        data_dir := (data_dir alpha_state)(''beta'' \<mapsto>
          \<lparr>main_ftml = ''hello'', commits = [''hello'']\<rparr>)\<rparr>"

text \<open>The state after user 1 has imported the permissions of \<open>texGroup\<close> into \<open>alpha\<close>.\<close>

definition group_state_imported :: state where
  "group_state_imported =
     group_state\<lparr>permissions := permissions group_state @
       [\<lparr>u_id = 7, op_id = 2, access_level = ''viewer''\<rparr>]\<rparr>"

text \<open>
  The state after user 1 has added user 9 to the template \<open>texGroup\<close> of
  \<open>group_state\<close> at level \<open>creator\<close>: the row is mirrored onto \<open>alpha\<close>, which now
  has two rows of level \<open>creator\<close>. Then the state after user 1 has imported the
  permissions of \<open>texGroup\<close> into \<open>alpha\<close> there.
\<close>

definition cocreator_state :: state where
  "cocreator_state =
     group_state\<lparr>permissions := permissions group_state @
       [\<lparr>u_id = 9, op_id = 1, access_level = ''creator''\<rparr>,
        \<lparr>u_id = 9, op_id = 2, access_level = ''creator''\<rparr>]\<rparr>"

definition cocreator_state_imported :: state where
  "cocreator_state_imported =
     cocreator_state\<lparr>permissions := permissions cocreator_state @
       [\<lparr>u_id = 7, op_id = 2, access_level = ''viewer''\<rparr>]\<rparr>"

text \<open>
  A table that holds the row of user 7 on \<open>texGroup\<close> twice, and the state after user 1
  has imported the permissions of \<open>texGroup\<close> into \<open>alpha\<close> there.
\<close>

definition duplicate_state :: state where
  "duplicate_state =
     group_state\<lparr>permissions :=
       [\<lparr>u_id = 1, op_id = 1, access_level = ''creator''\<rparr>,
        \<lparr>u_id = 1, op_id = 2, access_level = ''creator''\<rparr>,
        \<lparr>u_id = 7, op_id = 1, access_level = ''viewer''\<rparr>,
        \<lparr>u_id = 7, op_id = 1, access_level = ''viewer''\<rparr>]\<rparr>"

definition duplicate_state_imported :: state where
  "duplicate_state_imported =
     duplicate_state\<lparr>permissions := permissions duplicate_state @
       [\<lparr>u_id = 7, op_id = 2, access_level = ''viewer''\<rparr>]\<rparr>"

section \<open>Properties\<close>

subsection \<open>Named versions\<close>

lemma map_unmatched_rows: "\<forall>c \<in> set cs. \<not> P c \<Longrightarrow> map (\<lambda>c. if P c then f c else c) cs = cs"
  by (induction cs) auto

text \<open>
  Claim C10. For a requester who is admin, creator or collaborator of the given
  operation, \<open>set_version_name\<close> returns \<open>True\<close> whatever the change id is; when no
  Change row has that id the update matches no row, the tables stay as they were, and
  the call still reports success.
\<close>

theorem set_version_name_reports_success:
  assumes "is_admin s u op \<or> is_creator s u op \<or> is_collaborator s u op"
  shows "fst (set_version_name s ch op u version_name) = True \<and>
         (change_by_id s ch = None \<longrightarrow> set_version_name s ch op u version_name = (True, s))"
proof (intro conjI impI)
  show "fst (set_version_name s ch op u version_name) = True"
    using assms by (auto simp: set_version_name_def)
next
  assume "change_by_id s ch = None"
  then have "\<forall>c \<in> set (changes s). \<not> ch_id c = ch"
    by (simp add: change_by_id_def find_None_iff)
  then have "map (\<lambda>c. if ch_id c = ch then c\<lparr>ch_version_name := version_name\<rparr> else c)
               (changes s) = changes s"
    by (rule map_unmatched_rows)
  then show "set_version_name s ch op u version_name = (True, s)"
    using assms by (auto simp: set_version_name_def)
qed

lemmas alpha_simps = alpha_state_def is_member_def is_admin_def is_creator_def is_collaborator_def
  permission_of_def operation_by_id_def change_by_id_def

lemma alpha_operation:
  "operation_by_id alpha_state 1 =
     Some \<lparr>o_id = 1, o_path = ''alpha'', o_category = ''tex'', o_active = True\<rparr>"
  by (simp add: alpha_state_def operation_by_id_def)

lemma alpha_directory:
  "data_dir alpha_state ''alpha'' =
     Some \<lparr>main_ftml = ''b'', commits = [''x'', [CHR ''a'', CHR 0x0A], ''b'']\<rparr>"
  by (simp add: alpha_state_def)

lemma alpha_next_change: "next_id (map ch_id (changes alpha_state)) = 3"
  by (simp add: alpha_state_def next_id_def)

theorem set_version_name_reports_success_witness:
  "is_creator alpha_state 1 1 \<and> change_by_id alpha_state 99 = None
   \<and> fst (set_version_name alpha_state 99 1 1 (Some ''v1'')) = True
   \<and> set_version_name alpha_state 99 1 1 (Some ''v1'') = (True, alpha_state)"
proof -
  have a: "is_creator alpha_state 1 1" by (simp add: alpha_simps)
  have b: "change_by_id alpha_state 99 = None" by (simp add: alpha_simps)
  from set_version_name_reports_success [of alpha_state 1 1 99 "Some ''v1''"] a b
  show ?thesis by blast
qed

subsection \<open>Unknown change ids\<close>

text \<open>
  Claim C7 says that \<open>undo_changes\<close> and \<open>get_change_content\<close> return \<open>False\<close> for a
  change id that names no Change row and never raise. Both methods read \<open>ch.op_id\<close> of
  the row they looked up before they test whether there is a row (lines 394 and 426;
  the tests \<open>if not change\<close> and \<open>if ch is None\<close> come after), so for every such id
  both leave with \<open>AttributeError\<close>.
\<close>

theorem unknown_change_id_raises:
  assumes "change_by_id s ch = None"
  shows "undo_changes s ch user = Inl AttributeError
         \<and> get_change_content s ch user = Inl AttributeError"
  using assms by (simp add: undo_changes_def get_change_content_def)

theorem unknown_change_id_raises_witness:
  "change_by_id alpha_state 99 = None
   \<and> undo_changes alpha_state 99 1 = Inl AttributeError
   \<and> get_change_content alpha_state 99 1 = Inl AttributeError"
proof -
  have b: "change_by_id alpha_state 99 = None" by (simp add: alpha_simps)
  from unknown_change_id_raises [OF b] b show ?thesis by blast
qed

subsection \<open>Saving\<close>

lemma diff_content_empty:
  "join_lines (unified_diff a b) = '''' \<longleftrightarrow> a = b"
  by (simp add: join_lines_def unified_diff_def)

lemma save_file_changed_lines:
  assumes "operation_by_id s op = Some operation"
      and "data_dir s (o_path operation) = Some d"
      and "splitlines content \<noteq> splitlines (main_ftml d)"
  shows "save_file s op content user =
           Inr (True, s\<lparr>changes := changes s @
                          [\<lparr>ch_id = next_id (map ch_id (changes s)), ch_op_id = op, ch_u_id = user,
                            ch_commit_hash = length (commits d), ch_version_name = None\<rparr>],
                        data_dir := (data_dir s)(o_path operation \<mapsto>
                          d\<lparr>main_ftml := content, commits := commits d @ [content]\<rparr>)\<rparr>)"
  using assms by (auto simp: save_file_def Let_def diff_content_empty)

lemma save_file_same_lines:
  assumes "operation_by_id s op = Some operation"
      and "data_dir s (o_path operation) = Some d"
      and "splitlines content = splitlines (main_ftml d)"
  shows "save_file s op content user =
           Inr (False, s\<lparr>data_dir := (data_dir s)(o_path operation \<mapsto> d\<lparr>main_ftml := content\<rparr>)\<rparr>)"
  using assms by (simp add: save_file_def Let_def diff_content_empty)

lemma save_file_same_content:
  assumes "operation_by_id s op = Some operation"
      and "data_dir s (o_path operation) = Some d"
  shows "save_file s op (main_ftml d) user = Inr (False, s)"
proof -
  have "(data_dir s)(o_path operation \<mapsto> d\<lparr>main_ftml := main_ftml d\<rparr>) = data_dir s"
    using assms(2) by (simp add: map_upd_triv)
  then show ?thesis
    using save_file_same_lines [OF assms, of "main_ftml d" user] by simp
qed

text \<open>
  Claim C2 says that \<open>save_file\<close> called by a user without a Permission row on the
  operation returns \<open>False\<close> and changes nothing. \<open>save_file\<close> looks up no permission
  (\<open>get_file\<close>, \<open>get_all_changes\<close>, \<open>get_change_content\<close> and \<open>undo_changes\<close> do):
  for a user who is not a member, on an existing operation and with a text whose lines
  differ from the stored ones, it overwrites \<open>main.ftml\<close>, commits, adds a Change row
  signed by that user and returns \<open>True\<close>.
\<close>

theorem save_file_checks_no_membership:
  assumes "\<not> is_member s user op"
      and "operation_by_id s op = Some operation"
      and "data_dir s (o_path operation) = Some d"
      and "splitlines content \<noteq> splitlines (main_ftml d)"
  shows "save_file s op content user =
           Inr (True, s\<lparr>changes := changes s @
                          [\<lparr>ch_id = next_id (map ch_id (changes s)), ch_op_id = op, ch_u_id = user,
                            ch_commit_hash = length (commits d), ch_version_name = None\<rparr>],
                        data_dir := (data_dir s)(o_path operation \<mapsto>
                          d\<lparr>main_ftml := content, commits := commits d @ [content]\<rparr>)\<rparr>)"
  using assms(2-4) by (rule save_file_changed_lines)

theorem save_file_checks_no_membership_witness:
  "\<not> is_member alpha_state 3 1
   \<and> save_file alpha_state 1 ''c'' 3 =
       Inr (True, alpha_state\<lparr>changes := changes alpha_state @
                     [\<lparr>ch_id = 3, ch_op_id = 1, ch_u_id = 3, ch_commit_hash = 3,
                       ch_version_name = None\<rparr>],
                   data_dir := (data_dir alpha_state)(''alpha'' \<mapsto>
                     \<lparr>main_ftml = ''c'', commits = [''x'', [CHR ''a'', CHR 0x0A], ''b'', ''c'']\<rparr>)\<rparr>)"
proof -
  have a: "\<not> is_member alpha_state 3 1" by (simp add: alpha_simps)
  have c: "data_dir alpha_state
             (o_path \<lparr>o_id = 1, o_path = ''alpha'', o_category = ''tex'', o_active = True\<rparr>) =
           Some \<lparr>main_ftml = ''b'', commits = [''x'', [CHR ''a'', CHR 0x0A], ''b'']\<rparr>"
    by (simp add: alpha_directory)
  have d: "splitlines ''c'' \<noteq>
           splitlines (main_ftml \<lparr>main_ftml = ''b'', commits = [''x'', [CHR ''a'', CHR 0x0A], ''b'']\<rparr>)"
    by (simp add: splitlines_def is_line_boundary_def)
  from save_file_checks_no_membership [OF a alpha_operation c d] a alpha_next_change
  show ?thesis by simp
qed

text \<open>
  Claim C3, second half, as it is written: saving a text different from the current one
  returns \<open>True\<close>. The diff is taken between the lines of the two texts, so a text that
  differs from the stored one only in how its last line ends has an empty diff: the call
  returns \<open>False\<close>.
\<close>

theorem save_file_line_terminator_counterexample:
  "get_file alpha_state 1 1 = Inr (PyVal ''b'')
   \<and> [CHR ''b'', CHR 0x0A] \<noteq> ''b''
   \<and> save_file alpha_state 1 [CHR ''b'', CHR 0x0A] 1 =
       Inr (False, alpha_state\<lparr>data_dir := (data_dir alpha_state)(''alpha'' \<mapsto>
              \<lparr>main_ftml = [CHR ''b'', CHR 0x0A],
               commits = [''x'', [CHR ''a'', CHR 0x0A], ''b'']\<rparr>)\<rparr>)"
proof -
  have "splitlines [CHR ''b'', CHR 0x0A] = splitlines ''b''"
    by (simp add: splitlines_def is_line_boundary_def)
  then show ?thesis
    using save_file_same_lines [OF alpha_operation, of _ "[CHR ''b'', CHR 0x0A]" 1] alpha_directory
    by (simp add: get_file_def alpha_operation alpha_directory) (simp add: alpha_simps)
qed

text \<open>
  Claim C3, amended. For an operation that exists together with its directory, and any
  user: saving the text that \<open>main.ftml\<close> holds returns \<open>False\<close> and leaves the tables,
  the file and the repository as they were; saving a text whose sequence of lines
  (\<open>str.splitlines\<close>) differs from that of the stored text returns \<open>True\<close>, appends one
  commit holding the new text and one Change row that carries the hash of that commit
  and the id of the user.
\<close>

theorem save_file_by_lines:
  assumes "operation_by_id s op = Some operation"
      and "data_dir s (o_path operation) = Some d"
  shows "(content = main_ftml d \<longrightarrow> save_file s op content user = Inr (False, s))
       \<and> (splitlines content \<noteq> splitlines (main_ftml d) \<longrightarrow>
            save_file s op content user =
              Inr (True, s\<lparr>changes := changes s @
                          [\<lparr>ch_id = next_id (map ch_id (changes s)), ch_op_id = op, ch_u_id = user,
                            ch_commit_hash = length (commits d), ch_version_name = None\<rparr>],
                        data_dir := (data_dir s)(o_path operation \<mapsto>
                          d\<lparr>main_ftml := content, commits := commits d @ [content]\<rparr>)\<rparr>))"
  using save_file_same_content [OF assms] save_file_changed_lines [OF assms] by blast

theorem save_file_by_lines_witness:
  "save_file alpha_state 1 ''b'' 2 = Inr (False, alpha_state)
   \<and> save_file alpha_state 1 ''c'' 2 =
       Inr (True, alpha_state\<lparr>changes := changes alpha_state @
                     [\<lparr>ch_id = 3, ch_op_id = 1, ch_u_id = 2, ch_commit_hash = 3,
                       ch_version_name = None\<rparr>],
                   data_dir := (data_dir alpha_state)(''alpha'' \<mapsto>
                     \<lparr>main_ftml = ''c'', commits = [''x'', [CHR ''a'', CHR 0x0A], ''b'', ''c'']\<rparr>)\<rparr>)"
proof -
  have c: "data_dir alpha_state
             (o_path \<lparr>o_id = 1, o_path = ''alpha'', o_category = ''tex'', o_active = True\<rparr>) =
           Some \<lparr>main_ftml = ''b'', commits = [''x'', [CHR ''a'', CHR 0x0A], ''b'']\<rparr>"
    by (simp add: alpha_directory)
  have d: "splitlines ''c'' \<noteq> splitlines ''b''"
    by (simp add: splitlines_def is_line_boundary_def)
  from save_file_by_lines [OF alpha_operation c, of "''b''" 2]
       save_file_by_lines [OF alpha_operation c, of "''c''" 2] d alpha_next_change
  show ?thesis by simp
qed

subsection \<open>Deleting permissions\<close>

lemma creator_is_member: "is_creator s u op \<Longrightarrow> is_member s u op"
  by (auto simp: is_creator_def is_member_def split: option.splits)

lemma admin_is_member: "is_admin s u op \<Longrightarrow> is_member s u op"
  by (auto simp: is_admin_def is_member_def split: option.splits)

lemma only_self: "(length u_ids = 1 \<and> user \<in> set u_ids) \<longleftrightarrow> u_ids = [user]"
  by (cases u_ids) auto

lemma permission_of_None: "permission_of ps u op = None \<longleftrightarrow> (\<forall>p \<in> set ps. \<not> (u_id p = u \<and> op_id p = op))"
  by (auto simp: permission_of_def find_None_iff)

lemma deleted_is_gone:
  "u \<in> set ids \<Longrightarrow> permission_of (delete_rows op ids ps) u op = None"
  by (auto simp: permission_of_None delete_rows_def)

lemma delete_keeps_gone:
  "permission_of ps u op = None \<Longrightarrow> permission_of (delete_rows op' ids ps) u op = None"
  by (auto simp: permission_of_None delete_rows_def)

lemma fold_delete_keeps_gone:
  "permission_of ps u op = None \<Longrightarrow>
   permission_of (fold (\<lambda>r. delete_rows (o_id r) ids) rs ps) u op = None"
  by (induction rs arbitrary: ps) (auto simp: delete_keeps_gone)

lemma is_member_permissions:
  "is_member (s\<lparr>permissions := ps\<rparr>) u op \<longleftrightarrow> permission_of ps u op \<noteq> None"
  by (auto simp: is_member_def split: option.splits)

lemma delete_bulk_permission_done:
  assumes "\<not> delete_refused s op user u_ids" and "operation_by_id s op \<noteq> None"
  shows "\<exists>s'. delete_bulk_permission s op user u_ids = Inr (True, s')
              \<and> (\<forall>u \<in> set u_ids. \<not> is_member s' u op)"
  using assms
  by (auto simp: delete_bulk_permission_def Let_def is_member_permissions
                 deleted_is_gone fold_delete_keeps_gone)

text \<open>
  Claim C5. \<open>delete_bulk_permission\<close> refuses a requester without a Permission row. A
  member who is neither admin nor creator is refused unless the list of targets is
  exactly their own id, and then leaves the operation. A creator whose own id is among
  the targets is refused. An admin or creator who names a target that is not a member
  is refused. Every refusal returns \<open>False\<close> with the tables as they were, so no row
  is removed. An admin or creator who names members only (the creator not among them)
  removes them all. The two successes need the Operation row to exist.
\<close>

theorem delete_bulk_permission_guards:
  "(\<not> is_member s user op \<longrightarrow> delete_bulk_permission s op user u_ids = Inr (False, s))
   \<and> (is_member s user op \<and> \<not> is_admin s user op \<and> \<not> is_creator s user op \<and> u_ids \<noteq> [user] \<longrightarrow>
        delete_bulk_permission s op user u_ids = Inr (False, s))
   \<and> (is_member s user op \<and> \<not> is_admin s user op \<and> \<not> is_creator s user op \<and> u_ids = [user]
        \<and> operation_by_id s op \<noteq> None \<longrightarrow>
        (\<exists>s'. delete_bulk_permission s op user u_ids = Inr (True, s') \<and> \<not> is_member s' user op))
   \<and> (is_creator s user op \<and> user \<in> set u_ids \<longrightarrow>
        delete_bulk_permission s op user u_ids = Inr (False, s))
   \<and> ((is_admin s user op \<or> is_creator s user op) \<and> (\<exists>u \<in> set u_ids. \<not> is_member s u op) \<longrightarrow>
        delete_bulk_permission s op user u_ids = Inr (False, s))
   \<and> ((is_admin s user op \<or> is_creator s user op) \<and> (\<forall>u \<in> set u_ids. is_member s u op)
        \<and> \<not> (is_creator s user op \<and> user \<in> set u_ids) \<and> operation_by_id s op \<noteq> None \<longrightarrow>
        (\<exists>s'. delete_bulk_permission s op user u_ids = Inr (True, s')
              \<and> (\<forall>u \<in> set u_ids. \<not> is_member s' u op)))"
proof (intro conjI impI)
  assume "\<not> is_member s user op"
  then show "delete_bulk_permission s op user u_ids = Inr (False, s)"
    by (simp add: delete_bulk_permission_def delete_refused_def)
next
  assume "is_member s user op \<and> \<not> is_admin s user op \<and> \<not> is_creator s user op \<and> u_ids \<noteq> [user]"
  then show "delete_bulk_permission s op user u_ids = Inr (False, s)"
    using only_self [of u_ids user] by (auto simp: delete_bulk_permission_def delete_refused_def)
next
  assume a: "is_member s user op \<and> \<not> is_admin s user op \<and> \<not> is_creator s user op \<and> u_ids = [user]
             \<and> operation_by_id s op \<noteq> None"
  then have "\<not> delete_refused s op user u_ids" by (simp add: delete_refused_def)
  from delete_bulk_permission_done [OF this] a
  show "\<exists>s'. delete_bulk_permission s op user u_ids = Inr (True, s') \<and> \<not> is_member s' user op"
    by auto
next
  assume a: "is_creator s user op \<and> user \<in> set u_ids"
  then show "delete_bulk_permission s op user u_ids = Inr (False, s)"
    using creator_is_member [of s user op]
    by (auto simp: delete_bulk_permission_def delete_refused_def)
next
  assume a: "(is_admin s user op \<or> is_creator s user op) \<and> (\<exists>u \<in> set u_ids. \<not> is_member s u op)"
  then show "delete_bulk_permission s op user u_ids = Inr (False, s)"
    using creator_is_member [of s user op] admin_is_member [of s user op]
    by (auto simp: delete_bulk_permission_def delete_refused_def)
next
  assume a: "(is_admin s user op \<or> is_creator s user op) \<and> (\<forall>u \<in> set u_ids. is_member s u op)
        \<and> \<not> (is_creator s user op \<and> user \<in> set u_ids) \<and> operation_by_id s op \<noteq> None"
  then have "\<not> delete_refused s op user u_ids"
    using creator_is_member [of s user op] admin_is_member [of s user op]
    by (auto simp: delete_refused_def)
  from delete_bulk_permission_done [OF this] a
  show "\<exists>s'. delete_bulk_permission s op user u_ids = Inr (True, s')
              \<and> (\<forall>u \<in> set u_ids. \<not> is_member s' u op)"
    by blast
qed

lemmas group_simps = group_state_def is_member_def is_admin_def is_creator_def
  permission_of_def operation_by_id_def operation_by_path_def ops_of_category_def
  endswith_def GROUP_POSTFIX_def

theorem delete_bulk_permission_guards_witness:
  "\<not> is_member alpha_state 3 1
   \<and> delete_bulk_permission alpha_state 1 3 [2] = Inr (False, alpha_state)
   \<and> is_member alpha_state 2 1 \<and> \<not> is_admin alpha_state 2 1 \<and> \<not> is_creator alpha_state 2 1
   \<and> delete_bulk_permission alpha_state 1 2 [1] = Inr (False, alpha_state)
   \<and> delete_bulk_permission alpha_state 1 2 [2] =
       Inr (True, alpha_state\<lparr>permissions := [\<lparr>u_id = 1, op_id = 1, access_level = ''creator''\<rparr>]\<rparr>)
   \<and> is_creator alpha_state 1 1
   \<and> delete_bulk_permission alpha_state 1 1 [2, 1] = Inr (False, alpha_state)
   \<and> delete_bulk_permission alpha_state 1 1 [2, 3] = Inr (False, alpha_state)
   \<and> delete_bulk_permission alpha_state 1 1 [2] =
       Inr (True, alpha_state\<lparr>permissions := [\<lparr>u_id = 1, op_id = 1, access_level = ''creator''\<rparr>]\<rparr>)"
proof -
  have a: "\<not> is_member alpha_state 3 1" "is_member alpha_state 2 1" "\<not> is_admin alpha_state 2 1"
    "\<not> is_creator alpha_state 2 1" "is_creator alpha_state 1 1"
    by (simp_all add: alpha_simps)
  have b: "delete_bulk_permission alpha_state 1 2 [2] =
       Inr (True, alpha_state\<lparr>permissions := [\<lparr>u_id = 1, op_id = 1, access_level = ''creator''\<rparr>]\<rparr>)"
    "delete_bulk_permission alpha_state 1 1 [2] =
       Inr (True, alpha_state\<lparr>permissions := [\<lparr>u_id = 1, op_id = 1, access_level = ''creator''\<rparr>]\<rparr>)"
    by (simp_all add: delete_bulk_permission_def delete_refused_def delete_rows_def
          endswith_def GROUP_POSTFIX_def alpha_simps)
  from delete_bulk_permission_guards [of alpha_state 3 1 "[2]"]
       delete_bulk_permission_guards [of alpha_state 2 1 "[1]"]
       delete_bulk_permission_guards [of alpha_state 1 1 "[2, 1]"]
       delete_bulk_permission_guards [of alpha_state 1 1 "[2, 3]"] a b
  show ?thesis by simp
qed

subsection \<open>What every call of \<open>import_permissions\<close> leaves alone\<close>

lemma find_filter_keep: "(\<And>x. P x \<Longrightarrow> Q x) \<Longrightarrow> find P (filter Q xs) = find P xs"
  by (induction xs) auto

lemma find_snoc_other: "\<not> P y \<Longrightarrow> find P (xs @ [y]) = find P xs"
  by (induction xs) auto

lemma find_snoc_fresh: "find P xs = None \<Longrightarrow> P y \<Longrightarrow> find P (xs @ [y]) = Some y"
  by (induction xs) (auto split: if_splits)

lemma find_fold_add_imported:
  "(\<And>q. q \<in> set new \<Longrightarrow> \<not> P \<lparr>u_id = fst q, op_id = c, access_level = snd q\<rparr>) \<Longrightarrow>
   find P (fold (add_imported c ip) new t) = find P t"
proof (induction new arbitrary: t)
  case Nil
  then show ?case by simp
next
  case (Cons q new)
  have "find P (add_imported c ip q t) = find P t"
    using Cons.prems [of q] by (simp add: add_imported_def find_snoc_other)
  with Cons show ?case by simp
qed

lemma import_permissions_cases:
  assumes "import_permissions s imp cur u = Inr (r, s')"
  obtains (unchanged) "s' = s" and "fst r = False"
  | (applied) cr where
      "is_creator s u cur \<or> is_admin s u cur"
      and "permission_of (permissions s) u imp \<noteq> None"
      and "find (\<lambda>p. op_id p = cur \<and> access_level p = ''creator'') (permissions s) = Some cr"
      and "sort (new_perm_of (import_perms_of (permissions s) imp u (u_id cr)))
             \<noteq> sort (is_perm_of (existing_perms_of (permissions s) cur u))"
      and "s' = s\<lparr>permissions :=
             fold (add_imported cur (is_perm_of (existing_perms_of (permissions s) cur u)))
                  (new_perm_of (import_perms_of (permissions s) imp u (u_id cr)))
                  (delete_missing cur u (new_perm_of (import_perms_of (permissions s) imp u (u_id cr)))
                     (permissions s))\<rparr>"
      and "r = (True, Some (notification_of (is_perm_of (existing_perms_of (permissions s) cur u))
                              (new_perm_of (import_perms_of (permissions s) imp u (u_id cr)))),
                ''success'')"
proof (cases "\<not> is_creator s u cur \<and> \<not> is_admin s u cur")
  case True
  with assms have "s' = s" "fst r = False"
    by (auto simp: import_permissions_def)
  then show ?thesis by (rule unchanged)
next
  case auth: False
  show ?thesis
  proof (cases "permission_of (permissions s) u imp")
    case None
    with assms auth have "s' = s" "fst r = False"
      by (auto simp: import_permissions_def)
    then show ?thesis by (rule unchanged)
  next
    case (Some perm)
    show ?thesis
    proof (cases "find (\<lambda>p. op_id p = cur \<and> access_level p = ''creator'') (permissions s)")
      case None
      with assms auth Some have False
        by (simp add: import_permissions_def Let_def)
      then show ?thesis ..
    next
      case cr: (Some cr)
      show ?thesis
      proof (cases "sort (new_perm_of (import_perms_of (permissions s) imp u (u_id cr)))
                      = sort (is_perm_of (existing_perms_of (permissions s) cur u))")
        case True
        with assms auth Some cr have "s' = s" "fst r = False"
          by (auto simp: import_permissions_def Let_def)
        then show ?thesis by (rule unchanged)
      next
        case False
        with assms auth Some cr have
          "s' = s\<lparr>permissions :=
             fold (add_imported cur (is_perm_of (existing_perms_of (permissions s) cur u)))
                  (new_perm_of (import_perms_of (permissions s) imp u (u_id cr)))
                  (delete_missing cur u (new_perm_of (import_perms_of (permissions s) imp u (u_id cr)))
                     (permissions s))\<rparr>"
          "r = (True, Some (notification_of (is_perm_of (existing_perms_of (permissions s) cur u))
                              (new_perm_of (import_perms_of (permissions s) imp u (u_id cr)))),
                ''success'')"
          by (auto simp: import_permissions_def Let_def)
        with auth Some cr False show ?thesis
          by (intro applied [of cr]) auto
      qed
    qed
  qed
qed

lemma new_perm_not_requester:
  "q \<in> set (new_perm_of (import_perms_of table imp u c)) \<Longrightarrow> fst q \<noteq> u \<and> fst q \<noteq> c"
  by (auto simp: new_perm_of_def import_perms_of_def)

lemma import_permissions_frame:
  assumes "import_permissions s imp cur u = Inr (r, s')"
  shows "operations s' = operations s \<and> changes s' = changes s \<and> data_dir s' = data_dir s
         \<and> permission_of (permissions s') u x = permission_of (permissions s) u x"
  using assms
proof (cases rule: import_permissions_cases)
  case unchanged
  then show ?thesis by simp
next
  case (applied cr)
  have "find (\<lambda>p. u_id p = u \<and> op_id p = x)
          (fold (add_imported cur (is_perm_of (existing_perms_of (permissions s) cur u)))
                (new_perm_of (import_perms_of (permissions s) imp u (u_id cr)))
                (delete_missing cur u (new_perm_of (import_perms_of (permissions s) imp u (u_id cr)))
                   (permissions s)))
        = find (\<lambda>p. u_id p = u \<and> op_id p = x)
            (delete_missing cur u (new_perm_of (import_perms_of (permissions s) imp u (u_id cr)))
               (permissions s))"
    by (rule find_fold_add_imported) (use new_perm_not_requester in auto)
  also have "\<dots> = find (\<lambda>p. u_id p = u \<and> op_id p = x) (permissions s)"
    unfolding delete_missing_def by (rule find_filter_keep) auto
  finally show ?thesis
    using applied(5) by (simp add: permission_of_def)
qed

subsection \<open>Creating an operation and reading it back\<close>

lemma fold_max_ge: "a \<le> fold max xs (a::int)"
  by (induction xs arbitrary: a) (auto intro: order_trans [OF max.cobounded2])

lemma fold_max_mem: "x \<in> set xs \<Longrightarrow> x \<le> fold max xs (a::int)"
proof (induction xs arbitrary: a)
  case Nil
  then show ?case by simp
next
  case (Cons y ys)
  show ?case
  proof (cases "x = y")
    case True
    have "y \<le> max y a" by simp
    also have "\<dots> \<le> fold max ys (max y a)" by (rule fold_max_ge)
    finally show ?thesis using True by simp
  next
    case False
    with Cons show ?thesis by simp
  qed
qed

lemma next_id_fresh: "x \<in> set ids \<Longrightarrow> x \<noteq> next_id ids"
  using fold_max_mem [of x ids 0] by (auto simp: next_id_def)

lemma find_new_operation:
  "find (\<lambda>r. o_id r = next_id (map o_id rs)) (rs @ [r\<lparr>o_id := next_id (map o_id rs)\<rparr>])
     = Some (r\<lparr>o_id := next_id (map o_id rs)\<rparr>)"
proof -
  have "find (\<lambda>r. o_id r = next_id (map o_id rs)) rs = None"
    using next_id_fresh [of _ "map o_id rs"] by (auto simp: find_None_iff)
  then show ?thesis by (rule find_snoc_fresh) simp
qed

text \<open>
  Claim C9. After \<open>create_operation\<close> has returned \<open>True\<close>, the operation of the given
  path is there, and \<open>get_file\<close> called by the creating user on it returns the text
  that was supplied, or \<open>STUB_CODE\<close> when none was. The permissions imported from the
  category's Group operation on the way do not touch the creating user's own row.
\<close>

theorem create_operation_then_get_file:
  assumes "create_operation s path user content category active = Inr (True, s')"
  shows "\<exists>operation. operation_by_path s' path = Some operation
           \<and> get_file s' (o_id operation) user =
               Inr (PyVal (case content of None \<Rightarrow> STUB_CODE | Some c \<Rightarrow> c))"
proof -
  define oid where "oid = next_id (map o_id (operations s))"
  define operation where
    "operation = \<lparr>o_id = oid, o_path = path, o_category = category, o_active = active\<rparr>"
  define perm where "perm = \<lparr>u_id = user, op_id = oid, access_level = ''creator''\<rparr>"
  define s1 where
    "s1 = s\<lparr>operations := operations s @ [operation], permissions := permissions s @ [perm]\<rparr>"
  define initial where "initial = (case content of None \<Rightarrow> STUB_CODE | Some c \<Rightarrow> c)"
  from assms have nopath: "operation_by_path s path = None"
    by (auto simp: create_operation_def split: if_splits option.splits)
  from assms have free: "permission_of (permissions s) user oid = None"
    by (auto simp: create_operation_def oid_def Let_def split: if_splits option.splits)
  from assms nopath free obtain s2 where
    grp: "import_from_group s1 path category oid user = Inr s2"
    and s': "s' = s2\<lparr>data_dir := (data_dir s2)(path \<mapsto> \<lparr>main_ftml = initial, commits = [initial]\<rparr>)\<rparr>"
    unfolding create_operation_def
    by (auto simp: Let_def oid_def operation_def perm_def s1_def initial_def
             split: if_splits option.splits sum.splits)
  from grp have s2: "s2 = s1 \<or> (\<exists>imp r. import_permissions s1 imp oid user = Inr (r, s2))"
    by (auto simp: import_from_group_def map_sum_def split: if_splits option.splits sum.splits)
  from s2 have ops: "operations s2 = operations s1"
    and mine: "permission_of (permissions s2) user oid = permission_of (permissions s1) user oid"
    using import_permissions_frame by blast+
  have "permission_of (permissions s1) user oid = Some perm"
    using free by (simp add: s1_def permission_of_def find_snoc_fresh perm_def)
  with mine have member: "permission_of (permissions s') user oid = Some perm"
    by (simp add: s')
  have byid: "operation_by_id s' oid = Some operation"
    using find_new_operation [of "operations s" "\<lparr>o_id = 0, o_path = path, o_category = category, o_active = active\<rparr>"]
    by (simp add: s' ops s1_def operation_by_id_def operation_def oid_def)
  have bypath: "operation_by_path s' path = Some operation"
    using nopath by (simp add: s' ops s1_def operation_by_path_def find_snoc_fresh operation_def)
  have "get_file s' oid user = Inr (PyVal initial)"
    by (simp add: get_file_def member byid) (simp add: s' operation_def)
  with bypath show ?thesis
    by (auto simp: operation_def initial_def)
qed

lemmas import_simps = import_from_group_def import_permissions_def Let_def
  existing_perms_of_def import_perms_of_def is_perm_of_def
  new_perm_of_def delete_missing_def add_imported_def downgrade_def

theorem create_operation_then_get_file_witness:
  "create_operation group_state ''beta'' 1 None ''tex'' True = Inr (True, group_state_beta)
   \<and> get_file group_state_beta 4 1 = Inr (PyVal STUB_CODE)
   \<and> create_operation alpha_state ''beta'' 3 (Some ''hello'') ''lab'' True = Inr (True, alpha_state_beta)
   \<and> get_file alpha_state_beta 2 3 = Inr (PyVal ''hello'')"
proof -
  have g: "create_operation group_state ''beta'' 1 None ''tex'' True = Inr (True, group_state_beta)"
    by (simp add: create_operation_def import_simps next_id_def makedir_fails_def
          group_state_beta_def group_simps)
  have a: "create_operation alpha_state ''beta'' 3 (Some ''hello'') ''lab'' True
             = Inr (True, alpha_state_beta)"
    by (simp add: create_operation_def import_simps next_id_def makedir_fails_def
          alpha_state_beta_def alpha_state_def permission_of_def operation_by_path_def
          endswith_def GROUP_POSTFIX_def)
  have gp: "operation_by_path group_state_beta ''beta'' =
              Some \<lparr>o_id = 4, o_path = ''beta'', o_category = ''tex'', o_active = True\<rparr>"
    by (simp add: group_state_beta_def group_state_def operation_by_path_def)
  have ap: "operation_by_path alpha_state_beta ''beta'' =
              Some \<lparr>o_id = 2, o_path = ''beta'', o_category = ''lab'', o_active = True\<rparr>"
    by (simp add: alpha_state_beta_def alpha_state_def operation_by_path_def)
  from create_operation_then_get_file [OF g] gp
  have "get_file group_state_beta 4 1 = Inr (PyVal STUB_CODE)" by auto
  moreover from create_operation_then_get_file [OF a] ap
  have "get_file alpha_state_beta 2 3 = Inr (PyVal ''hello'')" by auto
  ultimately show ?thesis using g a by simp
qed

subsection \<open>Bulk changes on a Group operation\<close>

text \<open>
  Claim C1 says that a bulk change made on an operation whose path ends with the Group
  postfix reaches, for every user id of the list, every other operation of that category,
  and no other operation whose path ends with the postfix. In \<open>group_state\<close>, with
  user 1 acting on the template \<open>texGroup\<close>:
  \<^item> \<open>add_bulk_permission\<close> with the ids 5 and 6 gives both a row on the template, but
    on \<open>alpha\<close> only to 6: the rows for the category are built from the loop variable
    the first loop left behind (line 501), that is from the last id alone;
  \<^item> \<open>modify_bulk_permission\<close> and \<open>delete_bulk_permission\<close> with the id 7 also change
    and delete the row of 7 on \<open>labGroup\<close>: their loops over the category (lines 526
    and 567) lack the test of the path that the loop of \<open>add_bulk_permission\<close> has
    (line 500).
\<close>

theorem bulk_permission_propagation_at_template:
  "add_bulk_permission group_state 1 1 [5, 6] ''viewer'' =
     Inr (True, group_state\<lparr>permissions := permissions group_state @
            [\<lparr>u_id = 5, op_id = 1, access_level = ''viewer''\<rparr>,
             \<lparr>u_id = 6, op_id = 1, access_level = ''viewer''\<rparr>,
             \<lparr>u_id = 6, op_id = 2, access_level = ''viewer''\<rparr>]\<rparr>)
   \<and> modify_bulk_permission group_state 1 1 [7] ''admin'' =
     Inr (True, group_state\<lparr>permissions :=
            [\<lparr>u_id = 1, op_id = 1, access_level = ''creator''\<rparr>,
             \<lparr>u_id = 1, op_id = 2, access_level = ''creator''\<rparr>,
             \<lparr>u_id = 1, op_id = 3, access_level = ''creator''\<rparr>,
             \<lparr>u_id = 7, op_id = 1, access_level = ''admin''\<rparr>,
             \<lparr>u_id = 7, op_id = 3, access_level = ''admin''\<rparr>]\<rparr>)
   \<and> delete_bulk_permission group_state 1 1 [7] =
     Inr (True, group_state\<lparr>permissions :=
            [\<lparr>u_id = 1, op_id = 1, access_level = ''creator''\<rparr>,
             \<lparr>u_id = 1, op_id = 2, access_level = ''creator''\<rparr>,
             \<lparr>u_id = 1, op_id = 3, access_level = ''creator''\<rparr>]\<rparr>)"
  by (simp add: add_bulk_permission_def modify_bulk_permission_def delete_bulk_permission_def
        delete_refused_def update_level_def delete_rows_def Let_def group_simps)

theorem bulk_permission_propagation_at_template_witness:
  "operation_by_id group_state 1 =
     Some \<lparr>o_id = 1, o_path = ''texGroup'', o_category = ''tex'', o_active = True\<rparr>
   \<and> operation_by_id group_state 2 =
     Some \<lparr>o_id = 2, o_path = ''alpha'', o_category = ''tex'', o_active = True\<rparr>
   \<and> operation_by_id group_state 3 =
     Some \<lparr>o_id = 3, o_path = ''labGroup'', o_category = ''tex'', o_active = True\<rparr>
   \<and> (case add_bulk_permission group_state 1 1 [5, 6] ''viewer'' of
         Inl e \<Rightarrow> False
       | Inr (ok, s') \<Rightarrow> ok \<and> is_member s' 5 1 \<and> is_member s' 6 1
                          \<and> is_member s' 6 2 \<and> \<not> is_member s' 5 2)
   \<and> is_viewer group_state 7 3
   \<and> (case modify_bulk_permission group_state 1 1 [7] ''admin'' of
         Inl e \<Rightarrow> False
       | Inr (ok, s') \<Rightarrow> ok \<and> is_admin s' 7 1 \<and> is_admin s' 7 3)
   \<and> (case delete_bulk_permission group_state 1 1 [7] of
         Inl e \<Rightarrow> False
       | Inr (ok, s') \<Rightarrow> ok \<and> \<not> is_member s' 7 1 \<and> \<not> is_member s' 7 3)"
  using bulk_permission_propagation_at_template
  by (simp add: is_viewer_def group_simps)

subsection \<open>Undoing\<close>

lemma undo_changes_restores_git_show_aux:
  assumes "change_by_id s ch = Some c"
      and "is_admin s user (ch_op_id c) \<or> is_creator s user (ch_op_id c)
           \<or> is_collaborator s user (ch_op_id c)"
      and "operation_by_id s (ch_op_id c) = Some operation"
      and "data_dir s (o_path operation) = Some d"
      and "ch_commit_hash c < length (commits d)"
  shows "undo_changes s ch user =
           Inr (True, s\<lparr>changes := changes s @
                  [\<lparr>ch_id = next_id (map ch_id (changes s)), ch_op_id = ch_op_id c,
                    ch_u_id = user, ch_commit_hash = length (commits d),
                    ch_version_name = None\<rparr>],
                data_dir := (data_dir s)(o_path operation \<mapsto>
                  d\<lparr>main_ftml := strip_newline_in_stdout (commits d ! ch_commit_hash c),
                    commits := commits d @ [strip_newline_in_stdout (commits d ! ch_commit_hash c)]\<rparr>)\<rparr>)"
  using assms by (auto simp: undo_changes_def git_show_def Let_def)

lemma role_has_permission:
  "is_admin s u op \<or> is_creator s u op \<or> is_collaborator s u op \<Longrightarrow>
   \<exists>perm. permission_of (permissions s) u op = Some perm"
  by (auto simp: is_admin_def is_creator_def is_collaborator_def split: option.splits)

text \<open>
  Claim C8 says that a successful \<open>undo_changes\<close> makes \<open>get_file\<close> return the text
  recorded at the commit of the Change, and appends one Change row signed by the acting
  user. The row is appended as claimed. The text written back is what
  \<open>repo.git.show\<close> returns for the commit, which is the recorded text without its final
  line feed when it has one: for an admin, creator or collaborator, an existing operation
  with its directory and a commit of its repository, \<open>get_file\<close> returns that.
\<close>

theorem undo_changes_restores_git_show:
  assumes "change_by_id s ch = Some c"
      and "is_admin s user (ch_op_id c) \<or> is_creator s user (ch_op_id c)
           \<or> is_collaborator s user (ch_op_id c)"
      and "operation_by_id s (ch_op_id c) = Some operation"
      and "data_dir s (o_path operation) = Some d"
      and "ch_commit_hash c < length (commits d)"
  shows "\<exists>s'. undo_changes s ch user = Inr (True, s')
           \<and> get_file s' (ch_op_id c) user =
               Inr (PyVal (strip_newline_in_stdout (commits d ! ch_commit_hash c)))
           \<and> changes s' = changes s @
               [\<lparr>ch_id = next_id (map ch_id (changes s)), ch_op_id = ch_op_id c,
                 ch_u_id = user, ch_commit_hash = length (commits d),
                 ch_version_name = None\<rparr>]"
proof -
  from role_has_permission [OF assms(2)] obtain perm where
    "permission_of (permissions s) user (ch_op_id c) = Some perm" ..
  then show ?thesis
    using undo_changes_restores_git_show_aux [OF assms] assms(3)
    by (simp add: get_file_def operation_by_id_def)
qed

theorem undo_changes_restores_git_show_witness:
  "change_by_id alpha_state 1 =
     Some \<lparr>ch_id = 1, ch_op_id = 1, ch_u_id = 2, ch_commit_hash = 1, ch_version_name = None\<rparr>
   \<and> is_creator alpha_state 1 1
   \<and> data_dir alpha_state ''alpha'' =
       Some \<lparr>main_ftml = ''b'', commits = [''x'', [CHR ''a'', CHR 0x0A], ''b'']\<rparr>
   \<and> (case undo_changes alpha_state 1 1 of
         Inl e \<Rightarrow> False
       | Inr (ok, s') \<Rightarrow> ok \<and> get_file s' 1 1 = Inr (PyVal ''a'') \<and> length (changes s') = 3)"
proof -
  let ?c = "\<lparr>ch_id = 1, ch_op_id = 1, ch_u_id = 2, ch_commit_hash = 1, ch_version_name = None\<rparr>"
  let ?r = "\<lparr>o_id = 1, o_path = ''alpha'', o_category = ''tex'', o_active = True\<rparr>"
  let ?d = "\<lparr>main_ftml = ''b'', commits = [''x'', [CHR ''a'', CHR 0x0A], ''b'']\<rparr>"
  have c: "change_by_id alpha_state 1 = Some ?c"
    by (simp add: alpha_simps)
  have r: "is_creator alpha_state 1 1" by (simp add: alpha_simps)
  then have r': "is_admin alpha_state 1 (ch_op_id ?c) \<or> is_creator alpha_state 1 (ch_op_id ?c)
                 \<or> is_collaborator alpha_state 1 (ch_op_id ?c)"
    by simp
  have o: "operation_by_id alpha_state (ch_op_id ?c) = Some ?r"
    by (simp add: alpha_simps)
  have d: "data_dir alpha_state ''alpha'' = Some ?d"
    by (simp add: alpha_state_def)
  then have d': "data_dir alpha_state (o_path ?r) = Some ?d" by simp
  have h: "ch_commit_hash ?c < length (commits ?d)" by simp
  from undo_changes_restores_git_show [OF c r' o d' h]
  obtain s' where "undo_changes alpha_state 1 1 = Inr (True, s')"
    and "get_file s' 1 1 = Inr (PyVal ''a'')" and "length (changes s') = 3"
    by (auto simp: strip_newline_in_stdout_def alpha_state_def)
  with c r d show ?thesis by simp
qed

subsection \<open>Importing permissions\<close>

lemma downgrade_not_creator: "downgrade l \<noteq> ''creator''"
  by (simp add: downgrade_def)

lemma downgrade_other: "l \<noteq> ''creator'' \<Longrightarrow> downgrade l = l"
  by (simp add: downgrade_def)

lemma filter_fold_add_imported:
  "(\<And>q. q \<in> set new \<Longrightarrow> \<not> P \<lparr>u_id = fst q, op_id = c, access_level = snd q\<rparr>) \<Longrightarrow>
   filter P (fold (add_imported c ip) new t) = filter P t"
proof (induction new arbitrary: t)
  case Nil
  then show ?case by simp
next
  case (Cons q new)
  have "filter P (add_imported c ip q t) = filter P t"
    using Cons.prems [of q] by (simp add: add_imported_def)
  with Cons show ?case by simp
qed

lemma new_perm_level: "q \<in> set (new_perm_of rows) \<Longrightarrow> snd q \<noteq> ''creator''"
  by (auto simp: new_perm_of_def downgrade_not_creator)

lemma creator_rows_kept:
  assumes "import_permissions s imp cur u = Inr (r, s')"
  shows "filter (\<lambda>p. op_id p = cur \<and> access_level p = ''creator'') (permissions s')
         = filter (\<lambda>p. op_id p = cur \<and> access_level p = ''creator'') (permissions s)"
  using assms
proof (cases rule: import_permissions_cases)
  case unchanged
  then show ?thesis by simp
next
  case (applied cr)
  let ?np = "new_perm_of (import_perms_of (permissions s) imp u (u_id cr))"
  let ?C = "\<lambda>p. op_id p = cur \<and> access_level p = ''creator''"
  have "filter ?C (fold (add_imported cur (is_perm_of (existing_perms_of (permissions s) cur u)))
                     ?np (delete_missing cur u ?np (permissions s)))
        = filter ?C (delete_missing cur u ?np (permissions s))"
    by (rule filter_fold_add_imported) (use new_perm_level in auto)
  also have "\<dots> = filter ?C (permissions s)"
    unfolding delete_missing_def by (auto intro: filter_cong)
  finally show ?thesis using applied(5) by simp
qed

lemma fold_add_imported_eq:
  assumes "distinct (map fst np)"
      and "\<And>q. q \<in> set np \<Longrightarrow> q \<notin> set ip \<Longrightarrow> permission_of t (fst q) cur = None"
  shows "fold (add_imported cur ip) np t =
           t @ map (\<lambda>q. \<lparr>u_id = fst q, op_id = cur, access_level = snd q\<rparr>)
                   (filter (\<lambda>q. q \<notin> set ip) np)"
  using assms
proof (induction np arbitrary: t)
  case Nil
  then show ?case by simp
next
  case (Cons q np)
  show ?case
  proof (cases "q \<in> set ip")
    case True
    then have "add_imported cur ip q t = t" by (simp add: add_imported_def)
    moreover have "fold (add_imported cur ip) np t =
           t @ map (\<lambda>q. \<lparr>u_id = fst q, op_id = cur, access_level = snd q\<rparr>)
                   (filter (\<lambda>q. q \<notin> set ip) np)"
      using Cons.prems by (intro Cons.IH) auto
    ultimately show ?thesis using True by simp
  next
    case False
    let ?row = "\<lparr>u_id = fst q, op_id = cur, access_level = snd q\<rparr>"
    from False Cons.prems(2) [of q] have "add_imported cur ip q t = t @ [?row]"
      by (simp add: add_imported_def)
    moreover have "fold (add_imported cur ip) np (t @ [?row]) =
           (t @ [?row]) @ map (\<lambda>q. \<lparr>u_id = fst q, op_id = cur, access_level = snd q\<rparr>)
                   (filter (\<lambda>q. q \<notin> set ip) np)"
    proof (rule Cons.IH)
      show "distinct (map fst np)" using Cons.prems(1) by simp
    next
      fix q' assume q': "q' \<in> set np" "q' \<notin> set ip"
      have "fst q \<notin> fst ` set np" using Cons.prems(1) by simp
      then have "fst q' \<noteq> fst q" using q'(1) by (metis imageI)
      moreover have "permission_of t (fst q') cur = None" using Cons.prems(2) q' by simp
      ultimately show "permission_of (t @ [?row]) (fst q') cur = None"
        by (simp add: permission_of_def find_snoc_other)
    qed
    ultimately show ?thesis using False by simp
  qed
qed

lemma at_most_one: "length xs \<le> 1 \<Longrightarrow> x \<in> set xs \<Longrightarrow> y \<in> set xs \<Longrightarrow> x = y"
  by (cases xs) auto

lemma find_SomeD: "find P xs = Some x \<Longrightarrow> x \<in> set xs \<and> P x"
  by (induction xs) (auto split: if_splits)

lemma the_creator:
  assumes "single_creator table cur"
      and "find (\<lambda>p. op_id p = cur \<and> access_level p = ''creator'') table = Some cr"
      and "r \<in> set table" "op_id r = cur" "access_level r = ''creator''"
  shows "r = cr"
proof -
  let ?cs = "filter (\<lambda>p. op_id p = cur \<and> access_level p = ''creator'') table"
  from find_SomeD [OF assms(2)] have "cr \<in> set ?cs" by simp
  moreover have "r \<in> set ?cs" using assms(3-5) by simp
  ultimately show ?thesis
    using assms(1) at_most_one [of ?cs r cr] unfolding single_creator_def by simp
qed

lemma same_pair_same_row:
  assumes "one_row_per_pair table" "p \<in> set table" "r \<in> set table"
      and "u_id p = u_id r" "op_id p = op_id r"
  shows "p = r"
proof -
  from assms(1) have "inj_on (\<lambda>p. (u_id p, op_id p)) (set table)"
    by (simp add: one_row_per_pair_def distinct_map)
  from inj_onD [OF this, of p r] assms(2-5) show ?thesis by simp
qed

lemma distinct_users_of_operation:
  assumes "one_row_per_pair table"
  shows "distinct (map u_id (filter (\<lambda>p. op_id p = x \<and> Q p) table))"
proof -
  from assms have d: "distinct table" and i: "inj_on (\<lambda>p. (u_id p, op_id p)) (set table)"
    by (simp_all add: one_row_per_pair_def distinct_map)
  have "inj_on u_id (set (filter (\<lambda>p. op_id p = x \<and> Q p) table))"
  proof (rule inj_onI)
    fix a b assume "a \<in> set (filter (\<lambda>p. op_id p = x \<and> Q p) table)"
      "b \<in> set (filter (\<lambda>p. op_id p = x \<and> Q p) table)" "u_id a = u_id b"
    then show "a = b" using inj_onD [OF i, of a b] by simp
  qed
  with d show ?thesis by (simp add: distinct_map)
qed

lemma same_key_same_pair:
  assumes "distinct (map fst xs)" "a \<in> set xs" "b \<in> set xs" "fst a = fst b"
  shows "a = b"
proof -
  from assms(1) have "inj_on fst (set xs)" by (simp add: distinct_map)
  from inj_onD [OF this, of a b] assms(2-4) show ?thesis by simp
qed

lemma distinct_new_perm:
  "one_row_per_pair table \<Longrightarrow> distinct (map fst (new_perm_of (import_perms_of table imp u c)))"
  using distinct_users_of_operation [of table imp "\<lambda>p. u_id p \<noteq> u \<and> u_id p \<noteq> c"]
  by (simp add: new_perm_of_def import_perms_of_def comp_def)

lemma distinct_is_perm:
  "one_row_per_pair table \<Longrightarrow> distinct (map fst (is_perm_of (existing_perms_of table cur u)))"
  using distinct_users_of_operation [of table cur "\<lambda>p. u_id p \<noteq> u \<and> access_level p \<noteq> ''creator''"]
  by (simp add: is_perm_of_def existing_perms_of_def comp_def)

lemma no_row_left:
  assumes "one_row_per_pair table" and "single_creator table cur"
      and cr: "find (\<lambda>p. op_id p = cur \<and> access_level p = ''creator'') table = Some cr"
      and q: "q \<in> set (new_perm_of (import_perms_of table imp u (u_id cr)))"
      and nq: "q \<notin> set (is_perm_of (existing_perms_of table cur u))"
  shows "permission_of
           (delete_missing cur u (new_perm_of (import_perms_of table imp u (u_id cr))) table)
           (fst q) cur = None"
proof -
  let ?np = "new_perm_of (import_perms_of table imp u (u_id cr))"
  have False if r: "r \<in> set (delete_missing cur u ?np table)" "u_id r = fst q" "op_id r = cur" for r
  proof -
    from new_perm_not_requester [OF q] have nu: "fst q \<noteq> u" and nc: "fst q \<noteq> u_id cr" by simp_all
    from r have rt: "r \<in> set table" by (simp add: delete_missing_def)
    show False
    proof (cases "access_level r = ''creator''")
      case True
      from the_creator [OF assms(2) cr rt r(3) True] r(2) nc show False by simp
    next
      case False
      with r nu have "(u_id r, access_level r) \<in> set ?np"
        by (simp add: delete_missing_def)
      from same_key_same_pair [OF distinct_new_perm [OF assms(1)] this q] r(2)
      have "q = (u_id r, access_level r)" by simp
      moreover have "(u_id r, access_level r) \<in> set (is_perm_of (existing_perms_of table cur u))"
        using rt r nu False by (force simp: is_perm_of_def existing_perms_of_def)
      ultimately show False using nq by simp
    qed
  qed
  then show ?thesis by (auto simp: permission_of_None)
qed

lemma imported_table:
  assumes "one_row_per_pair table" and "single_creator table cur"
      and "find (\<lambda>p. op_id p = cur \<and> access_level p = ''creator'') table = Some cr"
  shows "fold (add_imported cur (is_perm_of (existing_perms_of table cur u)))
              (new_perm_of (import_perms_of table imp u (u_id cr)))
              (delete_missing cur u (new_perm_of (import_perms_of table imp u (u_id cr))) table)
         = delete_missing cur u (new_perm_of (import_perms_of table imp u (u_id cr))) table
           @ map (\<lambda>q. \<lparr>u_id = fst q, op_id = cur, access_level = snd q\<rparr>)
               (filter (\<lambda>q. q \<notin> set (is_perm_of (existing_perms_of table cur u)))
                  (new_perm_of (import_perms_of table imp u (u_id cr))))"
  by (rule fold_add_imported_eq [OF distinct_new_perm [OF assms(1)]])
     (rule no_row_left [OF assms])

lemma existing_after_delete:
  "is_perm_of (existing_perms_of (delete_missing cur u np table) cur u)
   = filter (\<lambda>q. q \<in> set np) (is_perm_of (existing_perms_of table cur u))"
proof -
  have "existing_perms_of (delete_missing cur u np table) cur u
        = filter (\<lambda>p. (u_id p, access_level p) \<in> set np) (existing_perms_of table cur u)"
    unfolding existing_perms_of_def delete_missing_def by (auto intro: filter_cong)
  then show ?thesis by (simp add: is_perm_of_def filter_map comp_def)
qed

lemma existing_of_added:
  assumes "\<And>q. q \<in> set qs \<Longrightarrow> fst q \<noteq> u \<and> snd q \<noteq> ''creator''"
  shows "is_perm_of (existing_perms_of
           (map (\<lambda>q. \<lparr>u_id = fst q, op_id = cur, access_level = snd q\<rparr>) qs) cur u) = qs"
proof -
  have "existing_perms_of (map (\<lambda>q. \<lparr>u_id = fst q, op_id = cur, access_level = snd q\<rparr>) qs) cur u
        = map (\<lambda>q. \<lparr>u_id = fst q, op_id = cur, access_level = snd q\<rparr>) qs"
    unfolding existing_perms_of_def using assms by (induction qs) auto
  then show ?thesis by (simp add: is_perm_of_def comp_def)
qed

lemma existing_append:
  "existing_perms_of (xs @ ys) cur u = existing_perms_of xs cur u @ existing_perms_of ys cur u"
  by (simp add: existing_perms_of_def)

lemma is_perm_append: "is_perm_of (xs @ ys) = is_perm_of xs @ is_perm_of ys"
  by (simp add: is_perm_of_def)

lemma mset_split: "mset (filter P xs) + mset (filter (\<lambda>x. \<not> P x) xs) = mset xs"
  by (induction xs) auto

lemma mset_kept_and_added:
  assumes "distinct ip" "distinct np"
  shows "mset (filter (\<lambda>q. q \<in> set np) ip @ filter (\<lambda>q. q \<notin> set ip) np) = mset np"
proof -
  have "set (filter (\<lambda>q. q \<in> set np) ip) = set (filter (\<lambda>q. q \<in> set ip) np)" by auto
  moreover have "distinct (filter (\<lambda>q. q \<in> set np) ip)" "distinct (filter (\<lambda>q. q \<in> set ip) np)"
    using assms by simp_all
  ultimately have "mset (filter (\<lambda>q. q \<in> set np) ip) = mset (filter (\<lambda>q. q \<in> set ip) np)"
    by (metis set_eq_iff_mset_eq_distinct)
  then have "mset (filter (\<lambda>q. q \<in> set np) ip @ filter (\<lambda>q. q \<notin> set ip) np)
             = mset (filter (\<lambda>q. q \<in> set ip) np) + mset (filter (\<lambda>q. q \<notin> set ip) np)"
    by (simp only: mset_append)
  also have "\<dots> = mset np" by (rule mset_split)
  finally show ?thesis .
qed

lemma is_perm_after_import:
  assumes "one_row_per_pair table" and "single_creator table cur"
      and "find (\<lambda>p. op_id p = cur \<and> access_level p = ''creator'') table = Some cr"
  shows "mset (is_perm_of (existing_perms_of
           (fold (add_imported cur (is_perm_of (existing_perms_of table cur u)))
              (new_perm_of (import_perms_of table imp u (u_id cr)))
              (delete_missing cur u (new_perm_of (import_perms_of table imp u (u_id cr))) table))
           cur u))
         = mset (new_perm_of (import_perms_of table imp u (u_id cr)))"
proof -
  let ?ip = "is_perm_of (existing_perms_of table cur u)"
  let ?np = "new_perm_of (import_perms_of table imp u (u_id cr))"
  have added: "is_perm_of (existing_perms_of
           (map (\<lambda>q. \<lparr>u_id = fst q, op_id = cur, access_level = snd q\<rparr>)
              (filter (\<lambda>q. q \<notin> set ?ip) ?np)) cur u) = filter (\<lambda>q. q \<notin> set ?ip) ?np"
  proof (rule existing_of_added)
    fix q assume "q \<in> set (filter (\<lambda>q. q \<notin> set ?ip) ?np)"
    then have "q \<in> set ?np" by simp
    from new_perm_not_requester [OF this] new_perm_level [OF this]
    show "fst q \<noteq> u \<and> snd q \<noteq> ''creator''" by simp
  qed
  have "distinct ?ip" "distinct ?np"
    using distinct_is_perm [OF assms(1)] distinct_new_perm [OF assms(1)]
    by (simp_all add: distinct_map)
  then show ?thesis
    by (simp only: imported_table [OF assms] existing_append is_perm_append
          existing_after_delete added mset_kept_and_added)
qed

lemma import_perms_after:
  assumes "imp \<noteq> cur"
  shows "import_perms_of (fold (add_imported cur ip) np (delete_missing cur u np' table)) imp u c
         = import_perms_of table imp u c"
proof -
  have "import_perms_of (fold (add_imported cur ip) np (delete_missing cur u np' table)) imp u c
        = import_perms_of (delete_missing cur u np' table) imp u c"
    unfolding import_perms_of_def
    by (rule filter_fold_add_imported) (use assms in simp)
  also have "\<dots> = import_perms_of table imp u c"
    unfolding import_perms_of_def delete_missing_def using assms by (auto intro: filter_cong)
  finally show ?thesis .
qed

lemma find_as_filter: "find P xs = (case filter P xs of [] \<Rightarrow> None | x # _ \<Rightarrow> Some x)"
  by (induction xs) auto

lemma same_operation_nothing_to_do:
  assumes "one_row_per_pair table" and "single_creator table cur"
      and cr: "find (\<lambda>p. op_id p = cur \<and> access_level p = ''creator'') table = Some cr"
  shows "new_perm_of (import_perms_of table cur u (u_id cr))
         = is_perm_of (existing_perms_of table cur u)"
proof -
  from find_SomeD [OF cr] have crt: "cr \<in> set table" "op_id cr = cur" "access_level cr = ''creator''"
    by simp_all
  have "(u_id p \<noteq> u_id cr) \<longleftrightarrow> (access_level p \<noteq> ''creator'')"
    if "p \<in> set table" "op_id p = cur" for p
    using same_pair_same_row [OF assms(1) that(1) crt(1)] the_creator [OF assms(2) cr that(1,2)]
      that(2) crt by auto
  then have "import_perms_of table cur u (u_id cr) = existing_perms_of table cur u"
    unfolding import_perms_of_def existing_perms_of_def by (auto intro: filter_cong)
  moreover have "new_perm_of (existing_perms_of table cur u) = is_perm_of (existing_perms_of table cur u)"
    unfolding new_perm_of_def is_perm_of_def existing_perms_of_def
    by (auto simp: downgrade_other)
  ultimately show ?thesis by simp
qed

lemma sort_of_mset: "mset xs = mset ys \<Longrightarrow> sort xs = sort ys"
  by (rule properties_for_sort) simp_all

lemma mset_of_sort: "sort xs = sort ys \<Longrightarrow> mset xs = mset ys"
  by (metis mset_sort)

lemma row_of_pair:
  assumes "(a, l) \<in> set (is_perm_of (existing_perms_of table cur u))"
  shows "\<lparr>u_id = a, op_id = cur, access_level = l\<rparr> \<in> set table"
proof -
  from assms obtain r where r: "r \<in> set table" "op_id r = cur" "u_id r = a" "access_level r = l"
    by (auto simp: is_perm_of_def existing_perms_of_def)
  have "r = \<lparr>u_id = a, op_id = cur, access_level = l\<rparr>"
    by (rule permission.equality) (simp_all add: r)
  with r(1) show ?thesis by simp
qed

lemma roles_from_permission:
  "permission_of (permissions s') u op = permission_of (permissions s) u op \<Longrightarrow>
   is_creator s' u op = is_creator s u op \<and> is_admin s' u op = is_admin s u op"
  by (simp add: is_creator_def is_admin_def)

text \<open>
  Claim C4, amended. On a Permission table with at most one row per user and operation
  and at most one creator row for the target operation: if a call of
  \<open>import_permissions\<close> has succeeded, a second call with the same arguments on the
  state it left returns \<open>(False, None, "Permissions are already given")\<close> and leaves that
  state as it is. (The first call turns the rows of the target, the requester's and the
  creator's apart, into the pairs computed from the source; the second call finds the two
  sorted lists equal.)
\<close>

theorem import_permissions_twice:
  assumes first: "import_permissions s imp cur u = Inr ((True, n, m), s')"
      and wf: "one_row_per_pair (permissions s)" "single_creator (permissions s) cur"
  shows "import_permissions s' imp cur u =
           Inr ((False, None, ''Permissions are already given''), s')"
  using first
proof (cases rule: import_permissions_cases)
  case unchanged
  then show ?thesis by simp
next
  case (applied cr)
  let ?C = "\<lambda>p. op_id p = cur \<and> access_level p = ''creator''"
  let ?ip = "is_perm_of (existing_perms_of (permissions s) cur u)"
  let ?np = "new_perm_of (import_perms_of (permissions s) imp u (u_id cr))"
  have diff: "imp \<noteq> cur"
    using applied(4) same_operation_nothing_to_do [OF wf applied(3), of u] by auto
  have table: "permissions s' = fold (add_imported cur ?ip) ?np (delete_missing cur u ?np (permissions s))"
    using applied(5) by simp
  from import_permissions_frame [OF first]
  have mine: "permission_of (permissions s') u cur = permission_of (permissions s) u cur"
    and member: "permission_of (permissions s') u imp = permission_of (permissions s) u imp"
    by simp_all
  from roles_from_permission [OF mine] applied(1)
  have auth: "\<not> (\<not> is_creator s' u cur \<and> \<not> is_admin s' u cur)" by simp
  from member applied(2) obtain perm where perm: "permission_of (permissions s') u imp = Some perm"
    by auto
  have creator: "find ?C (permissions s') = Some cr"
    using creator_rows_kept [OF first] applied(3) by (simp add: find_as_filter)
  have same_np: "new_perm_of (import_perms_of (permissions s') imp u (u_id cr)) = ?np"
    by (simp only: table import_perms_after [OF diff])
  have "mset (is_perm_of (existing_perms_of (permissions s') cur u)) = mset ?np"
    unfolding table by (rule is_perm_after_import [OF wf applied(3)])
  then have "sort ?np = sort (is_perm_of (existing_perms_of (permissions s') cur u))"
    by (intro sort_of_mset) simp
  with auth perm creator same_np show ?thesis
    by (simp add: import_permissions_def Let_def)
qed

text \<open>
  On a table that satisfies both invariants, an authorised call leaves every row it takes
  from the source with level \<open>creator\<close> on the target at level \<open>admin\<close>; the creator
  rows of the target stay as they are on any table.
\<close>

lemma imported_creator_becomes_admin:
  assumes call: "import_permissions s imp cur u = Inr (r, s')"
  shows "filter (\<lambda>p. op_id p = cur \<and> access_level p = ''creator'') (permissions s')
           = filter (\<lambda>p. op_id p = cur \<and> access_level p = ''creator'') (permissions s)
       \<and> (one_row_per_pair (permissions s) \<and> single_creator (permissions s) cur
            \<and> (is_creator s u cur \<or> is_admin s u cur)
            \<and> permission_of (permissions s) u imp \<noteq> None \<longrightarrow>
          (\<forall>cr p. find (\<lambda>p. op_id p = cur \<and> access_level p = ''creator'') (permissions s) = Some cr
                   \<and> p \<in> set (import_perms_of (permissions s) imp u (u_id cr))
                   \<and> access_level p = ''creator'' \<longrightarrow>
                 \<lparr>u_id = u_id p, op_id = cur, access_level = ''admin''\<rparr> \<in> set (permissions s')))"
proof (intro conjI impI allI)
  show "filter (\<lambda>p. op_id p = cur \<and> access_level p = ''creator'') (permissions s')
           = filter (\<lambda>p. op_id p = cur \<and> access_level p = ''creator'') (permissions s)"
    by (rule creator_rows_kept [OF call])
next
  fix cr p :: permission
  let ?ip = "is_perm_of (existing_perms_of (permissions s) cur u)"
  let ?np = "new_perm_of (import_perms_of (permissions s) imp u (u_id cr))"
  assume wf: "one_row_per_pair (permissions s) \<and> single_creator (permissions s) cur
            \<and> (is_creator s u cur \<or> is_admin s u cur)
            \<and> permission_of (permissions s) u imp \<noteq> None"
    and p: "find (\<lambda>p. op_id p = cur \<and> access_level p = ''creator'') (permissions s) = Some cr
                   \<and> p \<in> set (import_perms_of (permissions s) imp u (u_id cr))
                   \<and> access_level p = ''creator''"
  from p have pair: "(u_id p, ''admin'') \<in> set ?np"
    by (force simp: new_perm_of_def downgrade_def)
  show "\<lparr>u_id = u_id p, op_id = cur, access_level = ''admin''\<rparr> \<in> set (permissions s')"
  proof (cases "sort ?np = sort ?ip")
    case True
    with call wf p have "s' = s" by (auto simp: import_permissions_def Let_def)
    moreover from True have "set ?np = set ?ip" by (metis mset_of_sort mset_eq_setD)
    ultimately have "s' = s" and "(u_id p, ''admin'') \<in> set ?ip" using pair by simp_all
    from row_of_pair [OF this(2)] this(1) show ?thesis by simp
  next
    case False
    with call wf p have table:
      "permissions s' = fold (add_imported cur ?ip) ?np (delete_missing cur u ?np (permissions s))"
      by (auto simp: import_permissions_def Let_def)
    from wf p have "mset (is_perm_of (existing_perms_of (permissions s') cur u)) = mset ?np"
      unfolding table by (intro is_perm_after_import) simp_all
    then have "set (is_perm_of (existing_perms_of (permissions s') cur u)) = set ?np"
      by (rule mset_eq_setD)
    with pair have "(u_id p, ''admin'') \<in> set (is_perm_of (existing_perms_of (permissions s') cur u))"
      by simp
    then show ?thesis by (rule row_of_pair)
  qed
qed

lemmas import_eval = import_permissions_def Let_def existing_perms_of_def import_perms_of_def
  is_perm_of_def new_perm_of_def delete_missing_def add_imported_def downgrade_def
  notification_of_def is_creator_def is_admin_def permission_of_def

lemma group_import_first:
  "import_permissions group_state 1 2 1 =
     Inr ((True, Some \<lparr>add_users = {7}, modify_users = {}, delete_users = {}\<rparr>, ''success''),
          group_state_imported)"
  by (simp add: import_eval group_state_def group_state_imported_def)

lemma group_import_second:
  "import_permissions group_state_imported 1 2 1 =
     Inr ((False, None, ''Permissions are already given''), group_state_imported)"
  by (simp add: import_eval group_state_def group_state_imported_def)

theorem import_permissions_twice_witness:
  "import_permissions group_state 1 2 1 =
     Inr ((True, Some \<lparr>add_users = {7}, modify_users = {}, delete_users = {}\<rparr>, ''success''),
          group_state_imported)
   \<and> one_row_per_pair (permissions group_state)
   \<and> single_creator (permissions group_state) 2
   \<and> import_permissions group_state_imported 1 2 1 =
     Inr ((False, None, ''Permissions are already given''), group_state_imported)"
proof -
  have a: "one_row_per_pair (permissions group_state)"
    by (simp add: one_row_per_pair_def group_state_def)
  have b: "single_creator (permissions group_state) 2"
    by (simp add: single_creator_def group_state_def)
  from import_permissions_twice [OF group_import_first a b] group_import_first a b
  show ?thesis by simp
qed

subsection \<open>Tables outside the invariants\<close>

lemma cocreator_reached:
  "add_bulk_permission group_state 1 1 [9] ''creator'' = Inr (True, cocreator_state)"
  by (simp add: add_bulk_permission_def Let_def cocreator_state_def group_simps)

lemma cocreator_import_first:
  "import_permissions cocreator_state 1 2 1 =
     Inr ((True, Some \<lparr>add_users = {7, 9}, modify_users = {}, delete_users = {}\<rparr>, ''success''),
          cocreator_state_imported)"
  by (simp add: import_eval cocreator_state_imported_def cocreator_state_def group_state_def insert_commute)

lemma cocreator_import_second:
  "import_permissions cocreator_state_imported 1 2 1 =
     Inr ((True, Some \<lparr>add_users = {9}, modify_users = {}, delete_users = {}\<rparr>, ''success''),
          cocreator_state_imported)"
  by (simp add: import_eval cocreator_state_imported_def cocreator_state_def group_state_def)

lemma duplicate_import_first:
  "import_permissions duplicate_state 1 2 1 =
     Inr ((True, Some \<lparr>add_users = {7}, modify_users = {}, delete_users = {}\<rparr>, ''success''),
          duplicate_state_imported)"
  by (simp add: import_eval duplicate_state_imported_def duplicate_state_def group_state_def)

lemma duplicate_import_second:
  "import_permissions duplicate_state_imported 1 2 1 =
     Inr ((True, Some \<lparr>add_users = {}, modify_users = {}, delete_users = {}\<rparr>, ''success''),
          duplicate_state_imported)"
  by (simp add: import_eval duplicate_state_imported_def duplicate_state_def group_state_def)

text \<open>
  Claim C4 as it is written fails twice. In \<open>group_state\<close>, where both invariants hold,
  the second call does report that nothing is left to do, but with the message
  \<open>"Permissions are already given"\<close>, not \<open>"already applied"\<close>. And after user 1 has added
  user 9 to the template at level \<open>creator\<close> (\<open>add_bulk_permission\<close> takes that level, and
  mirrors the row onto \<open>alpha\<close>), the target \<open>alpha\<close> has two creator rows: the first
  import succeeds, and the second one reports \<open>"success"\<close> again, since the pair of user 9
  is computed anew each time and never written (line 625 finds the creator row of 9).
\<close>

theorem import_permissions_twice_counterexample:
  "import_permissions group_state 1 2 1 =
     Inr ((True, Some \<lparr>add_users = {7}, modify_users = {}, delete_users = {}\<rparr>, ''success''),
          group_state_imported)
   \<and> import_permissions group_state_imported 1 2 1 =
     Inr ((False, None, ''Permissions are already given''), group_state_imported)
   \<and> import_permissions group_state_imported 1 2 1 \<noteq>
     Inr ((False, None, ''already applied''), group_state_imported)
   \<and> add_bulk_permission group_state 1 1 [9] ''creator'' = Inr (True, cocreator_state)
   \<and> import_permissions cocreator_state 1 2 1 =
     Inr ((True, Some \<lparr>add_users = {7, 9}, modify_users = {}, delete_users = {}\<rparr>, ''success''),
          cocreator_state_imported)
   \<and> import_permissions cocreator_state_imported 1 2 1 =
     Inr ((True, Some \<lparr>add_users = {9}, modify_users = {}, delete_users = {}\<rparr>, ''success''),
          cocreator_state_imported)"
  by (simp add: group_import_first group_import_second cocreator_reached
        cocreator_import_first cocreator_import_second)

text \<open>
  The other invariant is needed as well: on a table that holds a row twice the second
  call reports \<open>"success"\<close> again. No method produces such a table from one that has
  at most one row per user and operation, as the lemmas after this one show.
\<close>

lemma duplicate_rows_break_idempotence:
  "\<not> one_row_per_pair (permissions duplicate_state)
   \<and> single_creator (permissions duplicate_state) 2
   \<and> import_permissions duplicate_state 1 2 1 =
     Inr ((True, Some \<lparr>add_users = {7}, modify_users = {}, delete_users = {}\<rparr>, ''success''),
          duplicate_state_imported)
   \<and> import_permissions duplicate_state_imported 1 2 1 =
     Inr ((True, Some \<lparr>add_users = {}, modify_users = {}, delete_users = {}\<rparr>, ''success''),
          duplicate_state_imported)"
  by (simp add: duplicate_import_first duplicate_import_second)
     (simp add: one_row_per_pair_def single_creator_def duplicate_state_def group_state_def)

lemma one_row_snoc:
  "one_row_per_pair table \<Longrightarrow> permission_of table (u_id p) (op_id p) = None \<Longrightarrow>
   one_row_per_pair (table @ [p])"
  by (auto simp: one_row_per_pair_def permission_of_None)

lemma one_row_filter: "one_row_per_pair table \<Longrightarrow> one_row_per_pair (filter P table)"
  by (simp add: one_row_per_pair_def distinct_map_filter)

lemma one_row_insert_permissions:
  "insert_permissions table new_rows = Some table' \<Longrightarrow> one_row_per_pair table \<Longrightarrow>
   one_row_per_pair table'"
proof (induction new_rows arbitrary: table)
  case Nil
  then show ?case by simp
next
  case (Cons p new_rows)
  from Cons.prems(1) have free: "permission_of table (u_id p) (op_id p) = None"
    and rest: "insert_permissions (table @ [p]) new_rows = Some table'"
    by (simp_all split: if_splits)
  from Cons.IH [OF rest one_row_snoc [OF Cons.prems(2) free]] show ?case .
qed

lemma one_row_update_level:
  "one_row_per_pair table \<Longrightarrow> one_row_per_pair (update_level op u_ids level table)"
proof -
  have "map (\<lambda>p. (u_id p, op_id p)) (update_level op u_ids level table)
        = map (\<lambda>p. (u_id p, op_id p)) table"
    by (induction table) (auto simp: update_level_def)
  then show "one_row_per_pair table \<Longrightarrow> one_row_per_pair (update_level op u_ids level table)"
    by (simp add: one_row_per_pair_def)
qed

lemma one_row_fold_update_level:
  "one_row_per_pair table \<Longrightarrow>
   one_row_per_pair (fold (\<lambda>ops. update_level (o_id ops) u_ids level) rs table)"
  by (induction rs arbitrary: table) (auto simp: one_row_update_level)

lemma one_row_delete_rows:
  "one_row_per_pair table \<Longrightarrow> one_row_per_pair (delete_rows op u_ids table)"
  unfolding delete_rows_def by (rule one_row_filter)

lemma one_row_fold_delete_rows:
  "one_row_per_pair table \<Longrightarrow>
   one_row_per_pair (fold (\<lambda>ops. delete_rows (o_id ops) u_ids) rs table)"
  by (induction rs arbitrary: table) (auto simp: one_row_delete_rows)

lemma one_row_fold_add_imported:
  "one_row_per_pair table \<Longrightarrow> one_row_per_pair (fold (add_imported cur ip) np table)"
proof (induction np arbitrary: table)
  case Nil
  then show ?case by simp
next
  case (Cons q np)
  have "one_row_per_pair (add_imported cur ip q table)"
    using Cons.prems by (simp add: add_imported_def one_row_snoc)
  then show ?case using Cons.IH by simp
qed

lemma one_row_add_bulk_permission:
  assumes "add_bulk_permission s op user new_u_ids level = Inr (ok, s')"
      and "one_row_per_pair (permissions s)"
  shows "one_row_per_pair (permissions s')"
  using assms
  by (auto simp: add_bulk_permission_def Let_def
           split: if_splits option.splits
           dest!: one_row_insert_permissions)

lemma one_row_modify_bulk_permission:
  assumes "modify_bulk_permission s op user u_ids level = Inr (ok, s')"
      and "one_row_per_pair (permissions s)"
  shows "one_row_per_pair (permissions s')"
  using assms
  by (auto simp: modify_bulk_permission_def Let_def one_row_update_level one_row_fold_update_level
           split: if_splits option.splits)

lemma one_row_delete_bulk_permission:
  assumes "delete_bulk_permission s op user u_ids = Inr (ok, s')"
      and "one_row_per_pair (permissions s)"
  shows "one_row_per_pair (permissions s')"
  using assms
  by (auto simp: delete_bulk_permission_def Let_def one_row_delete_rows one_row_fold_delete_rows
           split: if_splits option.splits)

lemma one_row_import_permissions:
  assumes "import_permissions s imp cur u = Inr (r, s')"
      and "one_row_per_pair (permissions s)"
  shows "one_row_per_pair (permissions s')"
  using assms(1)
proof (cases rule: import_permissions_cases)
  case unchanged
  then show ?thesis using assms(2) by simp
next
  case (applied cr)
  show ?thesis
    unfolding applied(5) using assms(2)
    by (simp add: one_row_fold_add_imported delete_missing_def one_row_filter)
qed

lemma one_row_create_operation:
  assumes "create_operation s path user content category active = Inr (ok, s')"
      and "one_row_per_pair (permissions s)"
  shows "one_row_per_pair (permissions s')"
proof (cases ok)
  case False
  with assms show ?thesis
    by (auto simp: create_operation_def Let_def split: if_splits option.splits sum.splits)
next
  case True
  let ?oid = "next_id (map o_id (operations s))"
  let ?perm = "\<lparr>u_id = user, op_id = ?oid, access_level = ''creator''\<rparr>"
  let ?s1 = "s\<lparr>operations := operations s @
               [\<lparr>o_id = ?oid, o_path = path, o_category = category, o_active = active\<rparr>],
             permissions := permissions s @ [?perm]\<rparr>"
  from assms(1) True obtain s2 where
    free: "permission_of (permissions s) user ?oid = None"
    and grp: "import_from_group ?s1 path category ?oid user = Inr s2"
    and s': "permissions s' = permissions s2"
    by (auto simp: create_operation_def Let_def split: if_splits option.splits sum.splits)
  have one: "one_row_per_pair (permissions ?s1)"
    using one_row_snoc [OF assms(2), of ?perm] free by simp
  from grp have "s2 = ?s1 \<or> (\<exists>imp r. import_permissions ?s1 imp ?oid user = Inr (r, s2))"
    by (auto simp: import_from_group_def map_sum_def split: if_splits option.splits sum.splits)
  then have "one_row_per_pair (permissions s2)"
    using one one_row_import_permissions by blast
  with s' show ?thesis by simp
qed



end
